theory Spec2Isabelle
  imports Complex_Main "HOL-Library.Log_Nat"
begin

section \<open>Shared Python primitives\<close>

text \<open>
  A Python number is modelled by the rational that is its exact value.  Comparisons of
  Python numbers are exact, so they are the comparisons of the rationals.  A float literal of
  the source is the double nearest to the decimal it is written as (the function \<open>double\<close>
  below: \<open>12.1\<close> is \<open>double (121 / 10)\<close>), and every arithmetic operation on floats rounds
  its exact result to the nearest double; an integer that enters float arithmetic is
  converted the same way.

  \<open>lower\<close> is \<open>str.lower\<close> on the ASCII letters, which is all that can turn a string into
  one of the ASCII dictionary keys of \<open>calculate_epa_aqi\<close>.
\<close>

definition lower_char :: "char \<Rightarrow> char" where
  "lower_char c =
     (case map_of (zip ''ABCDEFGHIJKLMNOPQRSTUVWXYZ'' ''abcdefghijklmnopqrstuvwxyz'') c of
        Some d \<Rightarrow> d
      | None \<Rightarrow> c)"

definition lower :: "string \<Rightarrow> string" where
  "lower s = map lower_char s"

text \<open>Python's \<open>round(x)\<close> on a float: nearest integer, a tie goes to the even neighbour.\<close>

definition py_round :: "rat \<Rightarrow> int" where
  "py_round x =
     (let f = \<lfloor>x\<rfloor>; d = x - of_int f
      in if d < 1 / 2 then f
         else if 1 / 2 < d then f + 1
         else if even f then f else f + 1)"

text \<open>Python's \<open>int(x)\<close> on a number: truncation towards zero.\<close>

definition py_int :: "rat \<Rightarrow> int" where
  "py_int x = (if 0 \<le> x then \<lfloor>x\<rfloor> else \<lceil>x\<rceil>)"

text \<open>
  Rounding to double precision, round-to-nearest with ties to even.  \<open>binade x\<close> is the
  exponent \<open>e\<close> with \<open>2^e \<le> |x| < 2^(e+1)\<close>, found from the bit lengths of numerator and
  denominator; a double with that exponent is a multiple of \<open>2^(e - 52)\<close>, and below the
  smallest normal exponent -1022 the spacing stays \<open>2^(-1074)\<close> (gradual underflow).
  \<open>double x\<close> is the multiple of that spacing nearest to \<open>x\<close>, the tie going to the even
  multiple.  Overflow to infinity (a magnitude of \<open>2^1024\<close> or more) is outside the model.
\<close>

definition binade :: "rat \<Rightarrow> int" where
  "binade x =
     (case quotient_of \<bar>x\<bar> of
        (p, q) \<Rightarrow>
          (let d = bitlen p - bitlen q
           in if 2 powi d \<le> \<bar>x\<bar> then d else d - 1))"

definition ulp_exponent :: "rat \<Rightarrow> int" where
  "ulp_exponent x = max (binade x) (- 1022) - 52"

definition double :: "rat \<Rightarrow> rat" where
  "double x =
     (if x = 0 then 0
      else of_int (py_round (x / 2 powi ulp_exponent x)) * 2 powi ulp_exponent x)"

section \<open>core/utils.py: calculate_epa_aqi\<close>

text \<open>
  A breakpoint band \<open>(c_low, c_high, aqi_low, aqi_high)\<close>.  The bounds of the PM2.5 table
  are float literals (\<open>12.0\<close>, \<open>12.1\<close>, ...), those of the other tables are integers.
\<close>

type_synonym breakpoint = "rat \<times> rat \<times> int \<times> int"

fun c_low :: "breakpoint \<Rightarrow> rat" where
  "c_low (cl, ch, al, ah) = cl"

fun c_high :: "breakpoint \<Rightarrow> rat" where
  "c_high (cl, ch, al, ah) = ch"

definition aqi_breakpoints :: "(string \<times> breakpoint list) list" where
  "aqi_breakpoints =
     [(''pm25'',
        [(0, double 12, 0, 50),
         (double (121 / 10), double (354 / 10), 51, 100),
         (double (355 / 10), double (554 / 10), 101, 150),
         (double (555 / 10), double (1504 / 10), 151, 200),
         (double (1505 / 10), double (2504 / 10), 201, 300),
         (double (2505 / 10), double (3504 / 10), 301, 400),
         (double (3505 / 10), double (5004 / 10), 401, 500)]),
      (''pm10'',
        [(0, 54, 0, 50),
         (55, 154, 51, 100),
         (155, 254, 101, 150),
         (255, 354, 151, 200),
         (355, 424, 201, 300),
         (425, 504, 301, 400),
         (505, 604, 401, 500)]),
      (''o3'',
        [(0, 54, 0, 50),
         (55, 70, 51, 100),
         (71, 85, 101, 150),
         (86, 105, 151, 200),
         (106, 200, 201, 300),
         (201, 400, 301, 400)]),
      (''no2'',
        [(0, 53, 0, 50),
         (54, 100, 51, 100),
         (101, 360, 101, 150),
         (361, 649, 151, 200),
         (650, 1249, 201, 300),
         (1250, 2049, 301, 400)]),
      (''so2'',
        [(0, 35, 0, 50),
         (36, 75, 51, 100),
         (76, 185, 101, 150),
         (186, 304, 151, 200),
         (305, 604, 201, 300),
         (605, 1004, 301, 400)]),
      (''co'',
        [(0, 4400, 0, 50),
         (4401, 9400, 51, 100),
         (9401, 12400, 101, 150),
         (12401, 15400, 151, 200),
         (15401, 30400, 201, 300),
         (30401, 50400, 301, 400)])]"

text \<open>The test \<open>c_low <= concentration <= c_high\<close> of the loop.\<close>

fun in_band :: "breakpoint \<Rightarrow> rat \<Rightarrow> bool" where
  "in_band (cl, ch, al, ah) c \<longleftrightarrow> cl \<le> c \<and> c \<le> ch"

text \<open>
  The body of the loop at a matching band:
  \<open>int(round(((aqi_high - aqi_low) / (c_high - c_low)) * (concentration - c_low) + aqi_low))\<close>.
  \<open>aqi_high - aqi_low\<close> is a difference of integers; the two differences of concentrations,
  the quotient, the product and the sum are float operations, each rounded, on the operands
  as floats (\<open>double\<close> leaves a float and an integer below \<open>2^53\<close> as they are); \<open>round\<close> then
  takes the double to an integer.
\<close>

fun interpolate :: "breakpoint \<Rightarrow> rat \<Rightarrow> int" where
  "interpolate (cl, ch, al, ah) c =
     py_round
       (double
          (double (double (of_int (ah - al) / double (double ch - double cl))
                   * double (double c - double cl))
           + of_int al))"

text \<open>
  The formula of the specification, in exact arithmetic:
  \<open>(aqiHigh - aqiLow) / (cHigh - cLow) * (c - cLow) + aqiLow\<close>.
\<close>

fun linear_interpolation :: "breakpoint \<Rightarrow> rat \<Rightarrow> rat" where
  "linear_interpolation (cl, ch, al, ah) c =
     (of_int (ah - al) / (ch - cl)) * (c - cl) + of_int al"

text \<open>The \<open>for\<close> loop over the bands: the first band that contains the concentration returns.\<close>

fun scan_breakpoints :: "breakpoint list \<Rightarrow> rat \<Rightarrow> int option" where
  "scan_breakpoints [] c = None"
| "scan_breakpoints (b # bs) c =
     (if in_band b c then Some (interpolate b c) else scan_breakpoints bs c)"

definition calculate_epa_aqi :: "string \<Rightarrow> rat \<Rightarrow> int option" where
  "calculate_epa_aqi pollutant concentration =
     (case map_of aqi_breakpoints (lower pollutant) of
        None \<Rightarrow> None
      | Some breakpoints \<Rightarrow>
          (case scan_breakpoints breakpoints concentration of
             Some aqi \<Rightarrow> Some aqi
           | None \<Rightarrow>
               if c_high (last breakpoints) < concentration then Some 500 else None))"

text \<open>
  A table whose bands have \<open>c_low < c_high\<close> (so the interpolation never divides by zero)
  and lie one after the other, each starting above the end of the one before.
\<close>

fun ascending :: "breakpoint list \<Rightarrow> bool" where
  "ascending [] \<longleftrightarrow> True"
| "ascending [b] \<longleftrightarrow> c_low b < c_high b"
| "ascending (b # b' # bs) \<longleftrightarrow> c_low b < c_high b \<and> c_high b < c_low b' \<and> ascending (b' # bs)"

section \<open>core/utils.py: get_aqi_category\<close>

record aqi_info =
  category :: string
  color :: string
  health_advice :: string

definition unknown_info :: aqi_info where
  "unknown_info =
     \<lparr>category = ''Unknown'', color = ''#808080'',
      health_advice = ''Unable to determine air quality.''\<rparr>"

text \<open>
  The argument is \<open>None\<close> or a number; a number is truncated by \<open>int(aqi)\<close> before the
  comparisons.
\<close>

definition get_aqi_category :: "rat option \<Rightarrow> aqi_info" where
  "get_aqi_category aqi =
     (case aqi of
        None \<Rightarrow> unknown_info
      | Some v \<Rightarrow>
          (let a = py_int v
           in if a \<le> 50 then
                \<lparr>category = ''Good'', color = ''#00E400'',
                 health_advice = ''Air quality is satisfactory, and air pollution poses little or no risk.''\<rparr>
              else if a \<le> 100 then
                \<lparr>category = ''Moderate'', color = ''#FFFF00'',
                 health_advice = ''Air quality is acceptable. However, there may be a risk for some people, particularly those who are unusually sensitive to air pollution.''\<rparr>
              else if a \<le> 150 then
                \<lparr>category = ''Unhealthy for Sensitive Groups'', color = ''#FF7E00'',
                 health_advice = ''Members of sensitive groups may experience health effects. The general public is less likely to be affected.''\<rparr>
              else if a \<le> 200 then
                \<lparr>category = ''Unhealthy'', color = ''#FF0000'',
                 health_advice = ''Some members of the general public may experience health effects; members of sensitive groups may experience more serious health effects.''\<rparr>
              else if a \<le> 300 then
                \<lparr>category = ''Very Unhealthy'', color = ''#8F3F97'',
                 health_advice = ''Health alert: The risk of health effects is increased for everyone.''\<rparr>
              else
                \<lparr>category = ''Hazardous'', color = ''#7E0023'',
                 health_advice = ''Health warning of emergency conditions: everyone is more likely to be affected.''\<rparr>))"

text \<open>Python truthiness of an optional number: \<open>None\<close> and zero are false.\<close>

definition truthy :: "rat option \<Rightarrow> bool" where
  "truthy v \<longleftrightarrow> (case v of None \<Rightarrow> False | Some x \<Rightarrow> x \<noteq> 0)"

definition truthy_int :: "int option \<Rightarrow> bool" where
  "truthy_int v \<longleftrightarrow> (case v of None \<Rightarrow> False | Some x \<Rightarrow> x \<noteq> 0)"

section \<open>aqi/services.py: the adaptive throttle of OpenMeteoAQIService\<close>

text \<open>
  The two attributes the throttle adjustment reads and writes: \<open>min_interval\<close> is the
  configured baseline, \<open>min_request_interval\<close> the current interval
  (\<open>_min_request_interval\<close> in the source).  \<open>max_request_interval\<close> is the class constant
  \<open>_max_request_interval = 2.0\<close>.
\<close>

record throttle =
  min_interval :: rat
  min_request_interval :: rat

definition max_request_interval :: rat where
  "max_request_interval = 2"

text \<open>
  \<open>__init__\<close>: the baseline is the setting \<open>OPEN_METEO_MIN_INTERVAL\<close> or 1.0; the current
  interval starts at the class default 1.0 and is overwritten with the baseline when the
  setting exists.
\<close>

definition init_throttle :: "rat option \<Rightarrow> throttle" where
  "init_throttle setting =
     (let mi = (case setting of None \<Rightarrow> 1 | Some v \<Rightarrow> v)
      in \<lparr>min_interval = mi,
          min_request_interval = (case setting of None \<Rightarrow> 1 | Some v \<Rightarrow> mi)\<rparr>)"

text \<open>
  \<open>_adjust_throttle_interval\<close>: the products \<open>interval * 1.5\<close> and \<open>interval * 0.95\<close> are
  float multiplications by the doubles nearest to 1.5 (which is 1.5) and to 0.95.
\<close>

definition adjust_throttle_interval :: "throttle \<Rightarrow> bool \<Rightarrow> throttle" where
  "adjust_throttle_interval s increase =
     (if increase then
        s\<lparr>min_request_interval :=
            min (double (min_request_interval s * double (3 / 2))) max_request_interval\<rparr>
      else if min_interval s < min_request_interval s then
        s\<lparr>min_request_interval :=
            max (double (min_request_interval s * double (95 / 100))) (min_interval s)\<rparr>
      else s)"

text \<open>A run of the client: the adjustments made by a sequence of signals, in order.\<close>

definition run_throttle :: "throttle \<Rightarrow> bool list \<Rightarrow> throttle" where
  "run_throttle s signals = foldl adjust_throttle_interval s signals"


section \<open>aqi/services.py: formatting the provider's current readings\<close>

text \<open>
  The \<open>current\<close> object of a provider response, restricted to the keys the formatting code
  reads.  A missing key and a null value both read as \<open>None\<close> through \<open>dict.get\<close>.
\<close>

record current_readings =
  pm2_5 :: "rat option"
  pm10 :: "rat option"
  ozone :: "rat option"
  nitrogen_dioxide :: "rat option"
  carbon_monoxide :: "rat option"
  sulphur_dioxide :: "rat option"
  us_aqi :: "rat option"
  european_aqi :: "rat option"

text \<open>
  The formatted result.  The fields filled from the weather and reverse-geocoding services
  and the copies of the raw readings are left out; \<open>category\<close>, \<open>color\<close> and
  \<open>health_advice\<close> are the fields of \<open>aqi_info\<close>.
\<close>

record formatted = aqi_info +
  aqi :: "rat option"
  aqi_source :: "string option"
  dominant_pollutant :: "string option"

text \<open>\<open>max((v for v in values if v is not None), default=None)\<close>.\<close>

definition max_present :: "int option list \<Rightarrow> int option" where
  "max_present vs =
     (case List.map_filter id vs of
        [] \<Rightarrow> None
      | x # xs \<Rightarrow> Some (fold max xs x))"

text \<open>
  The dictionary \<open>pollutant_aqis\<close>, in insertion order: one entry per reading that is
  present.
\<close>

definition sub_index_entry :: "string \<Rightarrow> string \<Rightarrow> rat option \<Rightarrow> (string \<times> int option) list" where
  "sub_index_entry name key reading =
     (case reading of None \<Rightarrow> [] | Some v \<Rightarrow> [(name, calculate_epa_aqi key v)])"

definition pollutant_aqis :: "bool \<Rightarrow> current_readings \<Rightarrow> (string \<times> int option) list" where
  "pollutant_aqis with_co cur =
     sub_index_entry ''pm2_5'' ''pm25'' (pm2_5 cur)
     @ sub_index_entry ''pm10'' ''pm10'' (pm10 cur)
     @ sub_index_entry ''nitrogen_dioxide'' ''no2'' (nitrogen_dioxide cur)
     @ sub_index_entry ''ozone'' ''o3'' (ozone cur)
     @ sub_index_entry ''sulphur_dioxide'' ''so2'' (sulphur_dioxide cur)
     @ (if with_co then sub_index_entry ''carbon_monoxide'' ''co'' (carbon_monoxide cur) else [])"

text \<open>
  \<open>if max_aqi: dominant_pollutant = next(k for k, v in pollutant_aqis.items() if v == max_aqi)\<close>.
\<close>

definition dominant_of :: "(string \<times> int option) list \<Rightarrow> string option" where
  "dominant_of entries =
     (let max_aqi = max_present (map snd entries)
      in if truthy_int max_aqi
         then map_option fst (find (\<lambda>kv. snd kv = max_aqi) entries)
         else None)"

definition with_info :: "aqi_info \<Rightarrow> rat option \<Rightarrow> string option \<Rightarrow> string option \<Rightarrow> formatted" where
  "with_info info a src dp =
     \<lparr>category = category info, color = color info, health_advice = health_advice info,
      aqi = a, aqi_source = src, dominant_pollutant = dp\<rparr>"

text \<open>
  The choice of the index: the provider's US index, else its European index, else the
  PM2.5 sub-index, else the PM10 sub-index.  The result is
  \<open>(aqi_value, dominant_pollutant, aqi_source)\<close>.
\<close>

definition resolve_aqi :: "current_readings \<Rightarrow> rat option \<times> string option \<times> string option" where
  "resolve_aqi cur =
     (if us_aqi cur \<noteq> None then
        (us_aqi cur, dominant_of (pollutant_aqis True cur), Some ''us_aqi'')
      else if european_aqi cur \<noteq> None then
        (european_aqi cur, dominant_of (pollutant_aqis False cur), Some ''european_aqi'')
      else
        (case pm2_5 cur of
           Some v \<Rightarrow>
             (map_option of_int (calculate_epa_aqi ''pm25'' v), Some ''pm2_5'',
              Some ''calculated_pm25'')
         | None \<Rightarrow>
             (case pm10 cur of
                Some v \<Rightarrow>
                  (map_option of_int (calculate_epa_aqi ''pm10'' v), Some ''pm10'',
                   Some ''calculated_pm10'')
              | None \<Rightarrow> (None, None, None))))"

definition format_current_response :: "current_readings \<Rightarrow> formatted" where
  "format_current_response cur =
     (case resolve_aqi cur of
        (aqi_value, dp, src) \<Rightarrow>
          with_info (if truthy aqi_value then get_aqi_category aqi_value else unknown_info)
            aqi_value src dp)"

section \<open>aqi/services.py: the enhanced payload\<close>

record pollutant_entry =
  reading :: rat
  epa_aqi :: "int option"
  entry_category :: "string option"
  entry_color :: "string option"

definition make_entry :: "string \<Rightarrow> string \<Rightarrow> rat option \<Rightarrow> (string \<times> pollutant_entry) list" where
  "make_entry name key r =
     (case r of
        None \<Rightarrow> []
      | Some v \<Rightarrow>
          (let a = calculate_epa_aqi key v
           in [(name,
                \<lparr>reading = v, epa_aqi = a,
                 entry_category =
                   (if truthy_int a then Some (category (get_aqi_category (map_option of_int a)))
                    else None),
                 entry_color =
                   (if truthy_int a then Some (color (get_aqi_category (map_option of_int a)))
                    else None)\<rparr>)]))"

definition pollutants_data :: "current_readings \<Rightarrow> (string \<times> pollutant_entry) list" where
  "pollutants_data cur =
     make_entry ''pm25'' ''pm25'' (pm2_5 cur)
     @ make_entry ''pm10'' ''pm10'' (pm10 cur)
     @ make_entry ''o3'' ''o3'' (ozone cur)
     @ make_entry ''no2'' ''no2'' (nitrogen_dioxide cur)
     @ make_entry ''co'' ''co'' (carbon_monoxide cur)
     @ make_entry ''so2'' ''so2'' (sulphur_dioxide cur)"

text \<open>
  The loop that picks the dominant pollutant; the accumulator is
  \<open>(max_aqi, dominant_pollutant)\<close>, starting at \<open>(0, None)\<close>.
\<close>

definition dominant_step :: "int \<times> string option \<Rightarrow> string \<times> pollutant_entry \<Rightarrow> int \<times> string option" where
  "dominant_step acc kv =
     (case epa_aqi (snd kv) of
        None \<Rightarrow> acc
      | Some a \<Rightarrow> if a \<noteq> 0 \<and> fst acc < a then (a, Some (fst kv)) else acc)"

definition dominant_loop :: "(string \<times> pollutant_entry) list \<Rightarrow> int \<times> string option" where
  "dominant_loop entries = foldl dominant_step (0, None) entries"

definition recommendations :: "int option \<Rightarrow> string list" where
  "recommendations overall =
     (case overall of
        None \<Rightarrow> []
      | Some a \<Rightarrow>
          if a = 0 then []
          else if a \<le> 50 then
            [''Air quality is good. Enjoy outdoor activities.'',
             ''No special precautions needed.'']
          else if a \<le> 100 then
            [''Air quality is acceptable for most people.'',
             ''Sensitive individuals should consider reducing prolonged outdoor exertion.'']
          else if a \<le> 150 then
            [''Sensitive groups should reduce outdoor activities.'',
             ''Children, elderly, and those with respiratory conditions should take extra care.'']
          else if a \<le> 200 then
            [''Everyone should reduce prolonged outdoor exertion.'',
             ''Sensitive groups should avoid outdoor activities.'',
             ''Keep windows closed if possible.'']
          else
            [''Avoid all outdoor activities.'',
             ''Stay indoors with windows closed.'',
             ''Use air purifiers if available.'',
             ''Consider wearing N95 masks if going outside is necessary.''])"

record aqi_block =
  block_value :: "int option"
  block_category :: string
  block_color :: string

text \<open>
  The enhanced payload, without the copies of the hourly data and the daily aggregates.
  The three entries of its \<open>aqi\<close> object are \<open>local_epa_aqi\<close>, \<open>uaqi\<close> and \<open>national_aqi\<close>.
\<close>

record enhanced =
  local_epa_aqi :: "aqi_block option"
  uaqi :: "aqi_block option"
  national_aqi :: "aqi_block option"
  pollutants :: "(string \<times> pollutant_entry) list"
  enhanced_dominant :: "string option"
  health_recommendations :: "string list"

datatype py_error = ValueError | DoesNotExist | MultipleObjectsReturned | UnboundLocalError

text \<open>
  \<open>current_data\<close> is \<open>None\<close> for a missing or empty dictionary, which raises; otherwise it
  carries the readings of its \<open>current\<close> object (all absent when that object is missing).
\<close>

definition enhance_with_aqi_calculations :: "current_readings option \<Rightarrow> py_error + enhanced" where
  "enhance_with_aqi_calculations current_data =
     (case current_data of
        None \<Rightarrow> Inl ValueError
      | Some cur \<Rightarrow>
          (let pd = pollutants_data cur;
               dp = snd (dominant_loop pd);
               overall_aqi =
                 (case dp of
                    None \<Rightarrow> None
                  | Some d \<Rightarrow> (case map_of pd d of None \<Rightarrow> None | Some e \<Rightarrow> epa_aqi e));
               aqi_info =
                 (if truthy_int overall_aqi then get_aqi_category (map_option of_int overall_aqi)
                  else unknown_info);
               block =
                 (if truthy_int overall_aqi
                  then Some \<lparr>block_value = overall_aqi, block_category = category aqi_info,
                             block_color = color aqi_info\<rparr>
                  else None)
           in Inr \<lparr>local_epa_aqi = block, uaqi = block, national_aqi = block,
                   pollutants = pd, enhanced_dominant = dp,
                   health_recommendations = recommendations overall_aqi\<rparr>))"

text \<open>Readings whose US index and PM2.5 concentration are both 0.\<close>

definition zero_readings :: current_readings where
  "zero_readings =
     \<lparr>pm2_5 = Some 0, pm10 = None, ozone = None, nitrogen_dioxide = None,
      carbon_monoxide = None, sulphur_dioxide = None, us_aqi = Some 0, european_aqi = None\<rparr>"

section \<open>aqi/waqi_service.py: build_worst_aqi_rankings\<close>

text \<open>
  An observation as the station loop builds it, restricted to the fields that the
  de-duplication, the sort and the ranking read or write.  \<open>rank\<close> is absent until the
  ranking loop sets it.
\<close>

record observation =
  city :: string
  country :: string
  obs_aqi :: int
  rank :: "nat option"

text \<open>
  \<open>city_key = f"{city_name}_{country}".lower()\<close>.  City names are arbitrary text, on which
  \<open>str.lower\<close> follows the Unicode case tables; the function is the parameter \<open>str_lower\<close> of
  the builder, and nothing is assumed about it.  (\<open>lower\<close> above is \<open>str.lower\<close> on ASCII
  text.)
\<close>

definition city_key :: "(string \<Rightarrow> string) \<Rightarrow> observation \<Rightarrow> string" where
  "city_key str_lower obs = str_lower (city obs @ ''_'' @ country obs)"

text \<open>
  \<open>city_aqi_map\<close> is a dictionary, modelled as an association list in insertion order;
  assigning to a key that is present replaces the value in place, assigning to a new key
  appends.
\<close>

fun dict_set :: "string \<Rightarrow> observation \<Rightarrow> (string \<times> observation) list \<Rightarrow> (string \<times> observation) list" where
  "dict_set k v [] = [(k, v)]"
| "dict_set k v (p # ps) = (if fst p = k then (k, v) # ps else p # dict_set k v ps)"

definition record_observation ::
  "(string \<Rightarrow> string) \<Rightarrow> (string \<times> observation) list \<Rightarrow> observation
     \<Rightarrow> (string \<times> observation) list" where
  "record_observation str_lower city_aqi_map observation =
     (case map_of city_aqi_map (city_key str_lower observation) of
        None \<Rightarrow> dict_set (city_key str_lower observation) observation city_aqi_map
      | Some kept \<Rightarrow>
          if obs_aqi kept < obs_aqi observation
          then dict_set (city_key str_lower observation) observation city_aqi_map
          else city_aqi_map)"

definition deduplicate ::
  "(string \<Rightarrow> string) \<Rightarrow> observation list \<Rightarrow> (string \<times> observation) list" where
  "deduplicate str_lower observations = foldl (record_observation str_lower) [] observations"

text \<open>The slice \<open>xs[:n]\<close>; a negative \<open>n\<close> counts from the end.\<close>

definition slice_to :: "int \<Rightarrow> 'a list \<Rightarrow> 'a list" where
  "slice_to n xs = (if 0 \<le> n then take (nat n) xs else take (length xs - nat (- n)) xs)"

text \<open>\<open>for i, obs in enumerate(xs, 1): obs['rank'] = i\<close>.\<close>

definition assign_ranks :: "observation list \<Rightarrow> observation list" where
  "assign_ranks xs = map (\<lambda>(i, obs). obs\<lparr>rank := Some i\<rparr>) (zip [1 ..< Suc (length xs)] xs)"

text \<open>
  The part of \<open>build_worst_aqi_rankings\<close> after the station requests: the observations
  arrive in the order the loop builds them, are de-duplicated, sorted by index with
  \<open>reverse=True\<close> (a stable sort, so equal indices keep their order), cut to \<open>top_n\<close> and
  ranked.
\<close>

definition build_worst_aqi_rankings ::
  "(string \<Rightarrow> string) \<Rightarrow> int \<Rightarrow> observation list \<Rightarrow> observation list" where
  "build_worst_aqi_rankings str_lower top_n observations =
     (let all_observations =
            sort_key (\<lambda>obs. - obs_aqi obs) (map snd (deduplicate str_lower observations))
      in assign_ranks (slice_to top_n all_observations))"

text \<open>
  The list before the cut, \<open>all_observations\<close> after the sort, with the ranks it would get:
  the whole ranking.
\<close>

definition full_ranking :: "(string \<Rightarrow> string) \<Rightarrow> observation list \<Rightarrow> observation list" where
  "full_ranking str_lower observations =
     assign_ranks
       (sort_key (\<lambda>obs. - obs_aqi obs) (map snd (deduplicate str_lower observations)))"

definition station :: "string \<Rightarrow> string \<Rightarrow> int \<Rightarrow> observation" where
  "station c k a = \<lparr>city = c, country = k, obs_aqi = a, rank = None\<rparr>"

text \<open>The loop invariant of the de-duplication, over the set \<open>S\<close> of observations seen.\<close>

definition kept_worst ::
  "(string \<Rightarrow> string) \<Rightarrow> (string \<times> observation) list \<Rightarrow> observation set \<Rightarrow> bool" where
  "kept_worst L m S \<longleftrightarrow>
     distinct (map fst m)
     \<and> (\<forall>k obs. map_of m k = Some obs \<longrightarrow>
           k = city_key L obs \<and> obs \<in> S
           \<and> (\<forall>x \<in> S. city_key L x = k \<longrightarrow> obs_aqi x \<le> obs_aqi obs))
     \<and> (\<forall>x \<in> S. map_of m (city_key L x) \<noteq> None)"

text \<open>Four station observations, two of them for the same city in different letter case.\<close>

definition four_stations :: "observation list" where
  "four_stations =
     [station ''Delhi'' ''India'' 80, station ''Lahore'' ''Pakistan'' 90,
      station ''DELHI'' ''india'' 120, station ''Dhaka'' ''Bangladesh'' 120]"

section \<open>aqi/services.py: fetch_batch_current_aqi\<close>

record location =
  lat :: rat
  lon :: rat

text \<open>
  What one chunk request comes to, seen from the chunk loop.  The provider and the
  per-location formatting (\<open>_format_current_response\<close>, which also calls the weather and
  geocoding services) are outside the model; a response carries the outcome of the
  formatting for each index, \<open>None\<close> where it raised.
  \<^item> \<open>NoData\<close>: \<open>_make_request\<close> returned \<open>None\<close> or an empty dictionary;
  \<^item> \<open>ErrorResponse\<close>: a dictionary with a true \<open>error\<close> entry;
  \<^item> \<open>InvalidCurrent\<close>: a batch dictionary whose \<open>current\<close> is not a dictionary;
  \<^item> \<open>BatchArrays rs\<close>: a batch dictionary whose \<open>latitude\<close> array has \<open>length rs\<close>
    entries;
  \<^item> \<open>SingleLocation r\<close>: a dictionary without a \<open>latitude\<close> array;
  \<^item> \<open>ListResponse rs\<close>: a list of response objects;
  \<^item> \<open>Unexpected\<close>: any other value;
  \<^item> \<open>Raised\<close>: an exception inside the chunk's \<open>try\<close> block.
\<close>

datatype response =
    NoData
  | ErrorResponse
  | InvalidCurrent
  | BatchArrays "formatted option list"
  | SingleLocation "formatted option"
  | ListResponse "formatted option list"
  | Unexpected
  | Raised

text \<open>
  The entries that a chunk of \<open>n\<close> locations adds to \<open>all_results\<close>: placeholders for a
  failed chunk, otherwise one entry per location, padded with placeholders.
\<close>

fun chunk_results :: "nat \<Rightarrow> response \<Rightarrow> formatted option list" where
  "chunk_results n NoData = replicate n None"
| "chunk_results n ErrorResponse = replicate n None"
| "chunk_results n InvalidCurrent = replicate n None"
| "chunk_results n (BatchArrays rs) =
     (let num_locations = min (length rs) n
      in take num_locations rs @ replicate (n - num_locations) None)"
| "chunk_results n (SingleLocation r) =
     (if 0 < n then
        (case r of
           Some processed \<Rightarrow> Some processed # replicate (n - 1) None
         | None \<Rightarrow> replicate n None)
      else replicate n None)"
| "chunk_results n (ListResponse rs) =
     map (\<lambda>i. if i < length rs then rs ! i else None) [0 ..< n]"
| "chunk_results n Unexpected = replicate n None"
| "chunk_results n Raised = replicate n None"

definition BATCH_CHUNK_SIZE :: nat where
  "BATCH_CHUNK_SIZE = 20"

text \<open>
  The loop \<open>for chunk_start in range(0, len(locations), BATCH_CHUNK_SIZE)\<close>, building
  \<open>all_results\<close>.  The request function gets the start index and the locations of the
  chunk.
\<close>

function all_results :: "(nat \<Rightarrow> location list \<Rightarrow> response) \<Rightarrow> nat \<Rightarrow> location list \<Rightarrow> formatted option list" where
  "all_results request chunk_start locations =
     (if length locations \<le> chunk_start then []
      else
        (let chunk_end = min (chunk_start + BATCH_CHUNK_SIZE) (length locations);
             chunk_locations = take (chunk_end - chunk_start) (drop chunk_start locations)
         in chunk_results (length chunk_locations) (request chunk_start chunk_locations)
            @ all_results request (chunk_start + BATCH_CHUNK_SIZE) locations))"
  by pat_completeness auto
termination
  by (relation "measure (\<lambda>(request, chunk_start, locations). length locations - chunk_start)")
     (auto simp: BATCH_CHUNK_SIZE_def)

declare all_results.simps [simp del]

text \<open>
  The result keeps Python's dynamic type: a list whose entries could be \<open>None\<close>; the final
  comprehension \<open>[r for r in all_results if r is not None]\<close> removes those.
\<close>

definition fetch_batch_current_aqi :: "(nat \<Rightarrow> location list \<Rightarrow> response) \<Rightarrow> location list \<Rightarrow> formatted option list" where
  "fetch_batch_current_aqi request locations =
     (if locations = [] then []
      else filter (\<lambda>r. r \<noteq> None) (all_results request 0 locations))"

text \<open>
  A formatted result as \<open>_format_current_response\<close> builds it from the provider's US index
  \<open>v\<close> and a PM2.5 reading of 12.0, whose sub-index 50 makes \<open>pm2_5\<close> the dominant pollutant.
\<close>

definition readings_with :: "rat \<Rightarrow> current_readings" where
  "readings_with v =
     \<lparr>pm2_5 = Some 12, pm10 = None, ozone = None, nitrogen_dioxide = None,
      carbon_monoxide = None, sulphur_dioxide = None, us_aqi = Some v, european_aqi = None\<rparr>"

definition result_with :: "rat \<Rightarrow> formatted" where
  "result_with v = format_current_response (readings_with v)"

text \<open>
  Three locations in one chunk; the formatting raises for the first, the other two come
  back with the indices 45 and 155.
\<close>

definition three_locations :: "location list" where
  "three_locations = [\<lparr>lat = 1, lon = 0\<rparr>, \<lparr>lat = 2, lon = 0\<rparr>, \<lparr>lat = 3, lon = 0\<rparr>]"

definition first_fails :: "nat \<Rightarrow> location list \<Rightarrow> response" where
  "first_fails chunk_start chunk =
     BatchArrays [None, Some (result_with 45), Some (result_with 155)]"


section \<open>accounts/models.py: the user and its password-reset token\<close>

text \<open>
  A row of the \<open>users\<close> table, restricted to the fields read below.  Times are seconds on
  a common clock; \<open>password\<close> stands for what \<open>set_password\<close> stores.
\<close>

record user =
  user_id :: nat
  email :: string
  password :: string
  is_active :: bool
  password_reset_token :: "string option"
  password_reset_expires :: "int option"

definition one_hour :: int where
  "one_hour = 3600"

text \<open>
  \<open>generate_password_reset_token\<close>; the token drawn by \<open>secrets.token_urlsafe(32)\<close> and the
  clock reading are arguments.
\<close>

definition generate_password_reset_token :: "string \<Rightarrow> int \<Rightarrow> user \<Rightarrow> user" where
  "generate_password_reset_token token now u =
     u\<lparr>password_reset_token := Some token, password_reset_expires := Some (now + one_hour)\<rparr>"

text \<open>Truthiness of an optional string: \<open>None\<close> and the empty string are false.\<close>

definition truthy_str :: "string option \<Rightarrow> bool" where
  "truthy_str s \<longleftrightarrow> (case s of None \<Rightarrow> False | Some t \<Rightarrow> t \<noteq> [])"

definition is_password_reset_token_valid :: "user \<Rightarrow> int \<Rightarrow> string \<Rightarrow> bool" where
  "is_password_reset_token_valid u now token =
     (if \<not> truthy_str (password_reset_token u) \<or> password_reset_expires u = None then False
      else if password_reset_token u \<noteq> Some token then False
      else if (case password_reset_expires u of None \<Rightarrow> False | Some e \<Rightarrow> e < now) then False
      else True)"

definition clear_password_reset_token :: "user \<Rightarrow> user" where
  "clear_password_reset_token u =
     u\<lparr>password_reset_token := None, password_reset_expires := None\<rparr>"

text \<open>\<open>Model.objects.get\<close> over the rows of a table.\<close>

definition objects_get :: "('a \<Rightarrow> bool) \<Rightarrow> 'a list \<Rightarrow> py_error + 'a" where
  "objects_get P rows =
     (case filter P rows of
        [] \<Rightarrow> Inl DoesNotExist
      | [row] \<Rightarrow> Inr row
      | _ \<Rightarrow> Inl MultipleObjectsReturned)"

text \<open>\<open>user.save()\<close>: the row with the user's primary key is replaced.\<close>

definition save_user :: "user \<Rightarrow> user list \<Rightarrow> user list" where
  "save_user u users = map (\<lambda>v. if user_id v = user_id u then u else v) users"

section \<open>accounts/views.py: forgot-password and reset-password\<close>

datatype body =
    Detail string
  | ErrorDetail string
  | ValidationErrors
  | ServerError

record http_response =
  status :: nat
  body :: body

text \<open>
  \<open>ResetPasswordView.post\<close>.  The serializer of the framework is the argument \<open>is_valid\<close>;
  a request that it rejects is answered 400 by \<open>raise_exception=True\<close>.  An exception that
  the view does not catch is answered 500.
\<close>

definition reset_password_post ::
  "(string \<Rightarrow> string \<Rightarrow> bool) \<Rightarrow> int \<Rightarrow> user list \<Rightarrow> string \<Rightarrow> string \<Rightarrow> user list \<times> http_response" where
  "reset_password_post is_valid now users token new_password =
     (if \<not> is_valid token new_password then
        (users, \<lparr>status = 400, body = ValidationErrors\<rparr>)
      else
        (case objects_get (\<lambda>u. password_reset_token u = Some token) users of
           Inl DoesNotExist \<Rightarrow>
             (users, \<lparr>status = 400, body = ErrorDetail ''Invalid password reset token.''\<rparr>)
         | Inl _ \<Rightarrow> (users, \<lparr>status = 500, body = ServerError\<rparr>)
         | Inr u \<Rightarrow>
             if \<not> is_password_reset_token_valid u now token then
               (users,
                \<lparr>status = 400, body = ErrorDetail ''Invalid or expired password reset token.''\<rparr>)
             else
               (save_user (clear_password_reset_token (u\<lparr>password := new_password\<rparr>)) users,
                \<lparr>status = 200, body = Detail ''Password successfully reset.''\<rparr>)))"

text \<open>
  \<open>ForgotPasswordView.post\<close>.  The result is the table, the users a reset mail was sent
  to, and the response; \<open>send_password_reset_email\<close> catches the failures of the mail
  transport, so its outcome does not reach the view.
\<close>

definition forgot_password_post ::
  "(string \<Rightarrow> bool) \<Rightarrow> string \<Rightarrow> int \<Rightarrow> user list \<Rightarrow> string \<Rightarrow> user list \<times> user list \<times> http_response" where
  "forgot_password_post is_valid token now users address =
     (if \<not> is_valid address then (users, [], \<lparr>status = 400, body = ValidationErrors\<rparr>)
      else
        (case objects_get (\<lambda>u. email u = address) users of
           Inr u \<Rightarrow>
             (let u' = generate_password_reset_token token now u
              in (save_user u' users, [u'],
                  \<lparr>status = 200,
                   body = Detail ''If the email exists, a password reset email has been sent.''\<rparr>))
         | Inl DoesNotExist \<Rightarrow>
             (users, [],
              \<lparr>status = 200,
               body = Detail ''If the email exists, a password reset email has been sent.''\<rparr>)
         | Inl _ \<Rightarrow> (users, [], \<lparr>status = 500, body = ServerError\<rparr>)))"

text \<open>A table with one user, and a serializer that accepts every request.\<close>

definition alice :: user where
  "alice =
     \<lparr>user_id = 1, email = ''alice@example.com'', password = ''old'', is_active = True,
      password_reset_token = None, password_reset_expires = None\<rparr>"

definition accept_all :: "string \<Rightarrow> string \<Rightarrow> bool" where
  "accept_all token new_password = True"

definition accept_address :: "string \<Rightarrow> bool" where
  "accept_address address = True"


section \<open>aqi/models.py and aqi/tasks.py: the alert sweep\<close>

record city_subscription =
  sub_user :: user
  sub_city :: string
  sub_country :: "string option"
  sub_latitude :: rat
  sub_longitude :: rat
  sub_is_active :: bool

record saved_location =
  loc_id :: nat
  loc_user :: nat
  loc_name :: string
  loc_latitude :: rat
  loc_longitude :: rat
  loc_city :: "string option"
  loc_country :: "string option"

record aqi_notification =
  note_user :: nat
  note_location :: nat
  note_aqi_value :: rat
  note_date :: int

text \<open>An alert mail that the mail transport accepted.\<close>

record alert =
  alert_user :: nat
  alert_location :: nat
  alert_aqi :: rat

text \<open>The three tables the sweep touches, and the mails sent so far.\<close>

record world =
  subscriptions :: "city_subscription list"
  saved_locations :: "saved_location list"
  notifications :: "aqi_notification list"
  outbox :: "alert list"

definition AQI_THRESHOLD :: rat where
  "AQI_THRESHOLD = 100"

text \<open>
  \<open>round(x, 4)\<close> on a float: the exact value of the float is rounded to four decimal places,
  a tie to the even digit, and the result is the double nearest to that decimal.
\<close>

definition round4 :: "rat \<Rightarrow> rat" where
  "round4 x = double (of_int (py_round (double x * 10000)) / 10000)"

text \<open>
  \<open>location_groups\<close> is a \<open>defaultdict(list)\<close>, modelled as an association list in
  insertion order: \<open>location_groups[key].append(pair)\<close>.
\<close>

fun group_append ::
  "rat \<times> rat \<Rightarrow> user \<times> city_subscription \<Rightarrow> ((rat \<times> rat) \<times> (user \<times> city_subscription) list) list
     \<Rightarrow> ((rat \<times> rat) \<times> (user \<times> city_subscription) list) list" where
  "group_append key pair [] = [(key, [pair])]"
| "group_append key pair (g # gs) =
     (if fst g = key then (key, snd g @ [pair]) # gs else g # group_append key pair gs)"

definition group_step ::
  "((rat \<times> rat) \<times> (user \<times> city_subscription) list) list \<Rightarrow> city_subscription
     \<Rightarrow> ((rat \<times> rat) \<times> (user \<times> city_subscription) list) list" where
  "group_step groups subscription =
     (if \<not> is_active (sub_user subscription) then groups
      else group_append (round4 (sub_latitude subscription), round4 (sub_longitude subscription))
             (sub_user subscription, subscription) groups)"

definition location_groups ::
  "city_subscription list \<Rightarrow> ((rat \<times> rat) \<times> (user \<times> city_subscription) list) list" where
  "location_groups subs = foldl group_step [] subs"

text \<open>\<open>str(x)\<close> of an optional string inside an f-string.\<close>

definition str_of :: "string option \<Rightarrow> string" where
  "str_of s = (case s of None \<Rightarrow> ''None'' | Some t \<Rightarrow> t)"

definition fresh_id :: "saved_location list \<Rightarrow> nat" where
  "fresh_id locs = Suc (fold max (map loc_id locs) 0)"

text \<open>
  \<open>SavedLocation.objects.get_or_create(user=, latitude=, longitude=, defaults=...)\<close>: the
  row found, or a new row appended to the table; more than one match raises.
\<close>

definition get_or_create ::
  "saved_location list \<Rightarrow> user \<Rightarrow> city_subscription \<Rightarrow> py_error + saved_location \<times> saved_location list" where
  "get_or_create locs u subscription =
     (case filter (\<lambda>l. loc_user l = user_id u \<and> loc_latitude l = sub_latitude subscription
                        \<and> loc_longitude l = sub_longitude subscription) locs of
        [] \<Rightarrow>
          (let created =
                 \<lparr>loc_id = fresh_id locs, loc_user = user_id u,
                  loc_name = sub_city subscription @ '', '' @ str_of (sub_country subscription),
                  loc_latitude = sub_latitude subscription,
                  loc_longitude = sub_longitude subscription,
                  loc_city = Some (sub_city subscription),
                  loc_country = sub_country subscription\<rparr>
           in Inr (created, locs @ [created]))
      | [l] \<Rightarrow> Inr (l, locs)
      | _ \<Rightarrow> Inl MultipleObjectsReturned)"

text \<open>
  \<open>send_aqi_alert_email\<close> (aqi/utils.py) returns \<open>True\<close>, returns \<open>False\<close>, or raises.  Before
  its \<open>try\<close> block it builds the message; there
  \<open>{...}.get(dominant_pollutant, dominant_pollutant.replace('_', ' ').title())\<close> evaluates the
  default eagerly and raises \<open>AttributeError\<close> when \<open>aqi_data['dominant_pollutant']\<close> is
  \<open>None\<close>.  Otherwise (with the setting \<open>FRONTEND_URL\<close> configured, and an index of at least
  100, which is all the sweep passes) it reaches the \<open>try\<close>, calls \<open>send_mail\<close> there and
  returns \<open>True\<close>, or \<open>False\<close> when \<open>send_mail\<close> raised.  The mail transport is outside the
  model: \<open>send_mail\<close> is a function of the number of calls made so far in the sweep and of
  the arguments of the call, true when the mail was accepted.
\<close>

datatype mail_outcome = Sent | NotSent | MailRaised

definition send_aqi_alert_email ::
  "(nat \<Rightarrow> user \<Rightarrow> saved_location \<Rightarrow> rat \<Rightarrow> bool) \<Rightarrow> nat \<Rightarrow> user \<Rightarrow> saved_location \<Rightarrow> rat
     \<Rightarrow> formatted \<Rightarrow> mail_outcome" where
  "send_aqi_alert_email send_mail calls u saved_location aqi_value aqi_data =
     (case dominant_pollutant aqi_data of
        None \<Rightarrow> MailRaised
      | Some dp \<Rightarrow> if send_mail calls u saved_location aqi_value then Sent else NotSent)"

text \<open>
  The variables of the sweep while it runs.  \<open>attempts\<close> counts the calls of \<open>send_mail\<close>;
  \<open>bound_location\<close> says whether the local variable \<open>saved_location\<close> has been assigned (the
  \<open>except\<close> clause of the inner \<open>try\<close> reads it); \<open>aborted\<close> is set when an exception leaves
  the loop for the outer \<open>except\<close>.
\<close>

record sweep =
  run_world :: world
  notifications_sent :: nat
  errors :: nat
  attempts :: nat
  bound_location :: bool
  aborted :: bool

definition already_notified :: "world \<Rightarrow> user \<Rightarrow> saved_location \<Rightarrow> int \<Rightarrow> bool" where
  "already_notified w u l today \<longleftrightarrow>
     list_ex (\<lambda>n. note_user n = user_id u \<and> note_location n = loc_id l \<and> note_date n = today)
       (notifications w)"

text \<open>The body of the loop over the \<open>(user, subscription)\<close> pairs of one coordinate.\<close>

definition process_pair ::
  "(nat \<Rightarrow> user \<Rightarrow> saved_location \<Rightarrow> rat \<Rightarrow> bool) \<Rightarrow> int \<Rightarrow> rat \<Rightarrow> formatted \<Rightarrow> sweep
     \<Rightarrow> user \<times> city_subscription \<Rightarrow> sweep" where
  "process_pair send_mail today aqi_value aqi_data st pair =
     (if aborted st then st
      else
        (case get_or_create (saved_locations (run_world st)) (fst pair) (snd pair) of
           Inl e \<Rightarrow>
             if bound_location st then st\<lparr>errors := errors st + 1\<rparr>
             else st\<lparr>aborted := True\<rparr>
         | Inr (saved_location, locs) \<Rightarrow>
             (let w = (run_world st)\<lparr>saved_locations := locs\<rparr>;
                  st1 = st\<lparr>run_world := w, bound_location := True\<rparr>
              in if already_notified w (fst pair) saved_location today then st1
                 else
                   (case send_aqi_alert_email send_mail (attempts st) (fst pair) saved_location
                           aqi_value aqi_data of
                      Sent \<Rightarrow>
                        st1\<lparr>run_world :=
                              w\<lparr>notifications :=
                                   notifications w
                                   @ [\<lparr>note_user = user_id (fst pair),
                                        note_location = loc_id saved_location,
                                        note_aqi_value = aqi_value, note_date = today\<rparr>],
                                 outbox :=
                                   outbox w
                                   @ [\<lparr>alert_user = user_id (fst pair),
                                        alert_location = loc_id saved_location,
                                        alert_aqi = aqi_value\<rparr>]\<rparr>,
                            notifications_sent := notifications_sent st + 1,
                            attempts := attempts st + 1\<rparr>
                    | NotSent \<Rightarrow>
                        st1\<lparr>errors := errors st + 1, attempts := attempts st + 1\<rparr>
                    | MailRaised \<Rightarrow>
                        st1\<lparr>errors := errors st + 1\<rparr>))))"

text \<open>
  The body of the loop over the location groups.  \<open>location_aqi_map\<close> pairs the i-th
  coordinate with the i-th entry of the batch result, as long as there is one.
\<close>

definition process_group ::
  "(nat \<Rightarrow> user \<Rightarrow> saved_location \<Rightarrow> rat \<Rightarrow> bool) \<Rightarrow> int
     \<Rightarrow> ((rat \<times> rat) \<times> formatted option) list \<Rightarrow> sweep
     \<Rightarrow> (rat \<times> rat) \<times> (user \<times> city_subscription) list \<Rightarrow> sweep" where
  "process_group send_mail today location_aqi_map st grp =
     (if aborted st then st
      else
        (case map_of location_aqi_map (fst grp) of
           None \<Rightarrow> st
         | Some None \<Rightarrow> st
         | Some (Some aqi_data) \<Rightarrow>
             (case aqi aqi_data of
                None \<Rightarrow> st
              | Some aqi_value \<Rightarrow>
                  if aqi_value < AQI_THRESHOLD then st
                  else foldl (process_pair send_mail today aqi_value aqi_data) st (snd grp))))"

record summary =
  task_status :: string
  sent :: nat
  error_count :: nat

definition start_sweep :: "world \<Rightarrow> sweep" where
  "start_sweep w =
     \<lparr>run_world = w, notifications_sent = 0, errors = 0, attempts = 0,
      bound_location = False, aborted = False\<rparr>"

definition unique_locations ::
  "((rat \<times> rat) \<times> (user \<times> city_subscription) list) list \<Rightarrow> location list" where
  "unique_locations groups = map (\<lambda>g. \<lparr>lat = fst (fst g), lon = snd (fst g)\<rparr>) groups"

definition check_and_send_aqi_alerts ::
  "(nat \<Rightarrow> location list \<Rightarrow> response) \<Rightarrow> (nat \<Rightarrow> user \<Rightarrow> saved_location \<Rightarrow> rat \<Rightarrow> bool)
     \<Rightarrow> int \<Rightarrow> world \<Rightarrow> world \<times> summary" where
  "check_and_send_aqi_alerts request send_mail today w =
     (let subs = filter sub_is_active (subscriptions w)
      in if subs = [] then (w, \<lparr>task_status = ''success'', sent = 0, error_count = 0\<rparr>)
         else
           (let groups = location_groups subs
            in if groups = [] then (w, \<lparr>task_status = ''success'', sent = 0, error_count = 0\<rparr>)
               else
                 (let aqi_results = fetch_batch_current_aqi request (unique_locations groups)
                  in if aqi_results = [] then
                       (w, \<lparr>task_status = ''error'', sent = 0, error_count = 0\<rparr>)
                     else
                       (let st = foldl (process_group send_mail today
                                          (zip (map fst groups) aqi_results))
                                   (start_sweep w) groups
                        in if aborted st then
                             (run_world st,
                              \<lparr>task_status = ''error'', sent = 0, error_count = 0\<rparr>)
                           else
                             (run_world st,
                              \<lparr>task_status = ''success'', sent = notifications_sent st,
                               error_count = errors st\<rparr>)))))"

text \<open>
  The mails of a sweep and the ledger.  \<open>new_alerts w w'\<close> are the mails sent between the
  worlds \<open>w\<close> and \<open>w'\<close>; \<open>alert_key\<close> is the (user, saved location) of a mail;
  \<open>notification_of today a\<close> is the row that the sweep creates after the mail \<open>a\<close>;
  \<open>has_row\<close> is the query \<open>AQINotification.objects.filter(user=, saved_location=, date=).exists()\<close>.
\<close>

definition new_alerts :: "world \<Rightarrow> world \<Rightarrow> alert list" where
  "new_alerts w w' = drop (length (outbox w)) (outbox w')"

definition alert_key :: "alert \<Rightarrow> nat \<times> nat" where
  "alert_key a = (alert_user a, alert_location a)"

definition notification_of :: "int \<Rightarrow> alert \<Rightarrow> aqi_notification" where
  "notification_of today a =
     \<lparr>note_user = alert_user a, note_location = alert_location a,
      note_aqi_value = alert_aqi a, note_date = today\<rparr>"

definition has_row :: "aqi_notification list \<Rightarrow> nat \<times> nat \<Rightarrow> int \<Rightarrow> bool" where
  "has_row rows k today \<longleftrightarrow>
     list_ex (\<lambda>n. (note_user n, note_location n) = k \<and> note_date n = today) rows"

text \<open>
  The invariant of the loops of a sweep on the date \<open>today\<close> that started in the world \<open>w\<close>:
  the mails sent so far and the rows created so far correspond one to one, no two of the mails
  are for the same (user, saved location), and none is for a (user, saved location) that had
  a row for \<open>today\<close> when the sweep started.
\<close>

definition sweep_invariant :: "world \<Rightarrow> int \<Rightarrow> world \<Rightarrow> bool" where
  "sweep_invariant w today w' \<longleftrightarrow>
     outbox w' = outbox w @ new_alerts w w'
     \<and> notifications w' = notifications w @ map (notification_of today) (new_alerts w w')
     \<and> distinct (map alert_key (new_alerts w w'))
     \<and> (\<forall>a \<in> set (new_alerts w w'). \<not> has_row (notifications w) (alert_key a) today)"

text \<open>
  A series of sweeps, each with its date, its provider and its mail transport, one after the
  other on the same database; the result is the last world and the mails sent, each with the
  date of its sweep.
\<close>

type_synonym sweep_run =
  "int \<times> (nat \<Rightarrow> location list \<Rightarrow> response) \<times> (nat \<Rightarrow> user \<Rightarrow> saved_location \<Rightarrow> rat \<Rightarrow> bool)"

fun run_sweeps :: "world \<Rightarrow> sweep_run list \<Rightarrow> world \<times> (int \<times> alert) list" where
  "run_sweeps w [] = (w, [])"
| "run_sweeps w ((today, request, send_mail) # runs) =
     (let w1 = fst (check_and_send_aqi_alerts request send_mail today w);
          rest = run_sweeps w1 runs
      in (fst rest, map (Pair today) (new_alerts w w1) @ snd rest))"

definition dated_key :: "int \<times> alert \<Rightarrow> nat \<times> nat \<times> int" where
  "dated_key da = (alert_user (snd da), alert_location (snd da), fst da)"

text \<open>
  A run of the sweep over 41 subscriptions of 41 users at 41 coordinates.  The request for
  the first chunk of 20 coordinates fails; the second chunk comes back with the index 45 for
  each of its 20 coordinates, the third with 155 for its one coordinate.
\<close>

definition subscriber :: "nat \<Rightarrow> city_subscription" where
  "subscriber i =
     \<lparr>sub_user =
        \<lparr>user_id = i, email = ''user@example.com'', password = ''x'', is_active = True,
         password_reset_token = None, password_reset_expires = None\<rparr>,
      sub_city = ''City'', sub_country = None, sub_latitude = of_nat i, sub_longitude = 0,
      sub_is_active = True\<rparr>"

definition forty_one :: world where
  "forty_one =
     \<lparr>subscriptions = map subscriber [0 ..< 41], saved_locations = [], notifications = [],
      outbox = []\<rparr>"

definition first_chunk_fails :: "nat \<Rightarrow> location list \<Rightarrow> response" where
  "first_chunk_fails chunk_start chunk =
     (if chunk_start = 0 then NoData
      else if chunk_start = 20 then BatchArrays (map (\<lambda>l. Some (result_with 45)) chunk)
      else BatchArrays (map (\<lambda>l. Some (result_with 155)) chunk))"

text \<open>A mail transport that accepts every mail.\<close>

definition always_sent :: "nat \<Rightarrow> user \<Rightarrow> saved_location \<Rightarrow> rat \<Rightarrow> bool" where
  "always_sent n u l v = True"

text \<open>
  The group of subscriber \<open>i\<close>, the location of its coordinate, and the compacted batch
  result of the run above.
\<close>

definition lone_group :: "nat \<Rightarrow> (rat \<times> rat) \<times> (user \<times> city_subscription) list" where
  "lone_group i = ((of_nat i, 0), [(sub_user (subscriber i), subscriber i)])"

definition spot :: "nat \<Rightarrow> location" where
  "spot i = \<lparr>lat = of_nat i, lon = 0\<rparr>"

definition batch_of_twenty_one :: "formatted option list" where
  "batch_of_twenty_one = replicate 20 (Some (result_with 45)) @ [Some (result_with 155)]"

text \<open>The location that the sweep requests for a subscription: its rounded coordinate.\<close>

definition coordinate_of :: "city_subscription \<Rightarrow> location" where
  "coordinate_of s = \<lparr>lat = round4 (sub_latitude s), lon = round4 (sub_longitude s)\<rparr>"

text \<open>The rows of the saved-location table that \<open>get_or_create\<close> finds for a subscription.\<close>

definition matching_locations :: "saved_location list \<Rightarrow> city_subscription \<Rightarrow> saved_location list" where
  "matching_locations locs s =
     filter (\<lambda>l. loc_user l = user_id (sub_user s) \<and> loc_latitude l = sub_latitude s
                  \<and> loc_longitude l = sub_longitude s) locs"

text \<open>
  A world with the one subscription of subscriber 5 and empty tables, and a provider that
  answers every chunk with the index 155 for each of its locations.
\<close>

definition lone_world :: world where
  "lone_world =
     \<lparr>subscriptions = [subscriber 5], saved_locations = [], notifications = [], outbox = []\<rparr>"

definition always_155 :: "nat \<Rightarrow> location list \<Rightarrow> response" where
  "always_155 chunk_start chunk = BatchArrays (map (\<lambda>l. Some (result_with 155)) chunk)"

text \<open>
  A world in which user 5 has two subscriptions, for two names of one place, at the same
  coordinate, and empty tables.
\<close>

definition twin_world :: world where
  "twin_world =
     \<lparr>subscriptions = [subscriber 5, (subscriber 5)\<lparr>sub_city := ''Town''\<rparr>],
      saved_locations = [], notifications = [], outbox = []\<rparr>"

text \<open>The same world after the one mail of its first sweep on day 7.\<close>

definition twin_alerted :: world where
  "twin_alerted =
     twin_world
       \<lparr>saved_locations :=
          [\<lparr>loc_id = 1, loc_user = 5, loc_name = ''City, None'', loc_latitude = 5,
            loc_longitude = 0, loc_city = Some ''City'', loc_country = None\<rparr>],
        notifications :=
          [\<lparr>note_user = 5, note_location = 1, note_aqi_value = 155, note_date = 7\<rparr>],
        outbox := [\<lparr>alert_user = 5, alert_location = 1, alert_aqi = 155\<rparr>]\<rparr>"

section \<open>Rounding: Python's round and the nearest double\<close>

lemma py_round_nearest: "\<bar>of_int (py_round x) - x\<bar> \<le> 1 / 2"
proof -
  have "of_int \<lfloor>x\<rfloor> \<le> x" and "x < of_int \<lfloor>x\<rfloor> + 1"
    by linarith+
  then show ?thesis
    by (auto simp: py_round_def Let_def)
qed

lemma py_round_le: "x \<le> of_int n \<Longrightarrow> py_round x \<le> n"
  using py_round_nearest[of x] by linarith

lemma py_round_ge: "of_int n \<le> x \<Longrightarrow> n \<le> py_round x"
  using py_round_nearest[of x] by linarith

lemma py_round_of_int: "py_round (of_int k) = k"
  by (simp add: py_round_def)

lemma py_round_near: "\<bar>x - of_int m\<bar> < 1 / 2 \<Longrightarrow> py_round x = m"
  using py_round_nearest[of x] by linarith

lemma bitlen_powi:
  assumes "0 < p"
  shows "2 powi (bitlen p - 1) \<le> (of_int p :: rat)" and "(of_int p :: rat) < 2 powi (bitlen p)"
proof -
  from assms have b1: "1 \<le> bitlen p" by (auto simp: bitlen_alt_def)
  from bitlen_bounds[OF assms] have lo: "2 ^ nat (bitlen p - 1) \<le> p" and hi: "p < 2 ^ nat (bitlen p)"
    by auto
  from lo have "(of_int (2 ^ nat (bitlen p - 1)) :: rat) \<le> of_int p" by (simp only: of_int_le_iff)
  then show "2 powi (bitlen p - 1) \<le> (of_int p :: rat)"
    using b1 by (simp add: power_int_def)
  from hi have "(of_int p :: rat) < of_int (2 ^ nat (bitlen p))" by (simp only: of_int_less_iff)
  then show "(of_int p :: rat) < 2 powi (bitlen p)"
    using b1 by (simp add: power_int_def)
qed

lemma binade_bounds:
  assumes "x \<noteq> 0"
  shows "2 powi (binade x) \<le> \<bar>x\<bar>" and "\<bar>x\<bar> < 2 powi (binade x + 1)"
proof -
  obtain p q where pq: "quotient_of \<bar>x\<bar> = (p, q)" by (cases "quotient_of \<bar>x\<bar>")
  then have q: "0 < q" by (rule quotient_of_denom_pos)
  from pq have x: "\<bar>x\<bar> = of_int p / of_int q" by (rule quotient_of_div)
  have p: "0 < p"
  proof (rule ccontr)
    assume "\<not> 0 < p"
    then have "(of_int p :: rat) \<le> 0" by simp
    with q have "(of_int p :: rat) / of_int q \<le> 0" by (simp add: divide_le_0_iff)
    with x assms show False by simp
  qed
  define d where "d = bitlen p - bitlen q"
  have b: "binade x = (if 2 powi d \<le> \<bar>x\<bar> then d else d - 1)"
    by (simp add: binade_def pq d_def Let_def)
  note bp = bitlen_powi[OF p] and bq = bitlen_powi[OF q]
  have qpos: "(0::rat) < of_int q" using q by simp
  have up: "\<bar>x\<bar> < 2 powi (d + 1)"
  proof -
    have "of_int p < (2::rat) powi (bitlen p)" by (rule bp(2))
    also have "\<dots> = 2 powi (d + 1) * 2 powi (bitlen q - 1)"
      by (simp add: d_def flip: power_int_add)
    also have "\<dots> \<le> 2 powi (d + 1) * of_int q"
      using bq(1) by (intro mult_left_mono) simp_all
    finally show ?thesis using qpos by (simp add: x pos_divide_less_eq)
  qed
  have lo: "2 powi (d - 1) \<le> \<bar>x\<bar>"
  proof -
    have "2 powi (d - 1) * of_int q \<le> (2::rat) powi (d - 1) * 2 powi (bitlen q)"
      using bq(2) by (intro mult_left_mono) simp_all
    also have "\<dots> = 2 powi (bitlen p - 1)"
      by (simp add: d_def flip: power_int_add)
    also have "\<dots> \<le> of_int p" by (rule bp(1))
    finally show ?thesis using qpos by (simp add: x pos_le_divide_eq)
  qed
  show "2 powi (binade x) \<le> \<bar>x\<bar>" using b lo by auto
  show "\<bar>x\<bar> < 2 powi (binade x + 1)" using b up by (auto simp: not_le)
qed

lemma binade_unique:
  assumes "2 powi e \<le> \<bar>x\<bar>" and "\<bar>x\<bar> < 2 powi (e + 1)"
  shows "binade x = e"
proof -
  have pos: "(0::rat) < 2 powi e" by simp
  have nz: "x \<noteq> 0"
  proof
    assume "x = 0"
    with assms(1) have "(2::rat) powi e \<le> 0" by simp
    with pos show False by linarith
  qed
  note b = binade_bounds[OF nz]
  have "\<not> binade x < e"
  proof
    assume "binade x < e"
    then have "binade x + 1 \<le> e" by simp
    then have "(2::rat) powi (binade x + 1) \<le> 2 powi e" by (intro power_int_increasing) simp_all
    with b(2) assms(1) show False by linarith
  qed
  moreover have "\<not> e < binade x"
  proof
    assume "e < binade x"
    then have "e + 1 \<le> binade x" by simp
    then have "(2::rat) powi (e + 1) \<le> 2 powi (binade x)" by (intro power_int_increasing) simp_all
    with b(1) assms(2) show False by linarith
  qed
  ultimately show ?thesis by simp
qed

lemma binade_mono:
  assumes "0 < x" and "x \<le> y"
  shows "binade x \<le> binade y"
proof (rule ccontr)
  assume "\<not> binade x \<le> binade y"
  then have "binade y + 1 \<le> binade x" by simp
  then have "(2::rat) powi (binade y + 1) \<le> 2 powi (binade x)"
    by (intro power_int_increasing) simp_all
  moreover from assms have "x \<noteq> 0" "y \<noteq> 0" by auto
  then have "2 powi (binade x) \<le> \<bar>x\<bar>" "\<bar>y\<bar> < 2 powi (binade y + 1)"
    by (auto intro: binade_bounds)
  ultimately show False using assms by linarith
qed

lemma ulp_exponent_mono: "0 < x \<Longrightarrow> x \<le> y \<Longrightarrow> ulp_exponent x \<le> ulp_exponent y"
  using binade_mono[of x y] by (simp add: ulp_exponent_def)

lemma double_zero [simp]: "double 0 = 0"
  by (simp add: double_def)

lemma double_nonzero:
  "x \<noteq> 0 \<Longrightarrow>
     double x = of_int (py_round (x / 2 powi ulp_exponent x)) * 2 powi ulp_exponent x"
  by (simp add: double_def)

text \<open>
  Certificates: a rounding is settled by the binade of the number and the rounding of its
  scaled value to an integer.
\<close>

lemma double_certificate:
  assumes "2 powi e \<le> \<bar>x\<bar>" and "\<bar>x\<bar> < 2 powi (e + 1)" and "- 1022 \<le> e"
    and "py_round (x / 2 powi (e - 52)) = m"
  shows "double x = of_int m * 2 powi (e - 52)"
proof -
  have pos: "(0::rat) < 2 powi e" by simp
  have nz: "x \<noteq> 0"
  proof
    assume "x = 0"
    with assms(1) have "(2::rat) powi e \<le> 0" by simp
    with pos show False by linarith
  qed
  have "binade x = e" using assms(1,2) by (rule binade_unique)
  with assms(3) have "ulp_exponent x = e - 52" by (simp add: ulp_exponent_def)
  with nz assms(4) show ?thesis by (simp add: double_def)
qed

lemma double_scaled:
  assumes "2 ^ 52 \<le> \<bar>x\<bar> * 2 ^ k" and "\<bar>x\<bar> * 2 ^ k < 2 ^ 53" and "k \<le> 1074"
    and "py_round (x * 2 ^ k) = m"
  shows "double x = of_int m / 2 ^ k"
proof -
  have e0: "52 - int k - 52 = - int k" by simp
  have s: "(2::rat) powi (- int k) = 1 / 2 ^ k"
    by (simp add: power_int_minus_divide)
  have a: "(2::rat) powi (52 - int k) = 2 ^ 52 / 2 ^ k"
    by (simp add: power_int_diff)
  have e1: "52 - int k + 1 = 53 - int k" by simp
  have b: "(2::rat) powi (53 - int k) = 2 ^ 53 / 2 ^ k"
    by (simp add: power_int_diff)
  have "2 powi (52 - int k) \<le> \<bar>x\<bar>"
    using assms(1) by (simp add: a pos_divide_le_eq)
  moreover have "\<bar>x\<bar> < 2 powi (52 - int k + 1)"
    unfolding e1 b using assms(2) by (simp add: pos_less_divide_eq)
  moreover have "- 1022 \<le> 52 - int k" using assms(3) by simp
  moreover have "py_round (x / 2 powi (52 - int k - 52)) = m"
    unfolding e0 s using assms(4) by simp
  ultimately have "double x = of_int m * 2 powi (52 - int k - 52)"
    by (rule double_certificate)
  then show ?thesis unfolding e0 s by simp
qed

lemma py_round_tie_down: "x = of_int m + 1 / 2 \<Longrightarrow> even m \<Longrightarrow> py_round x = m"
proof -
  assume x: "x = of_int m + 1 / 2" and e: "even m"
  have "\<lfloor>x\<rfloor> = m" unfolding x by linarith
  with x e show ?thesis by (simp add: py_round_def Let_def)
qed

lemma py_round_tie_up: "x = of_int m - 1 / 2 \<Longrightarrow> even m \<Longrightarrow> py_round x = m"
proof -
  assume x: "x = of_int m - 1 / 2" and e: "even m"
  have f: "\<lfloor>x\<rfloor> = m - 1" unfolding x by linarith
  from e have "odd (m - 1)" by simp
  with x f show ?thesis by (simp add: py_round_def Let_def)
qed

text \<open>Rounding keeps the sign, fixes every double, and is monotone across a double.\<close>

lemma double_nonneg:
  assumes "0 \<le> x"
  shows "0 \<le> double x"
proof (cases "x = 0")
  case True
  then show ?thesis by simp
next
  case False
  have "0 \<le> x / 2 powi ulp_exponent x" using assms by simp
  then have "(of_int 0 :: rat) \<le> x / 2 powi ulp_exponent x" by simp
  then have "0 \<le> py_round (x / 2 powi ulp_exponent x)" by (rule py_round_ge)
  with False show ?thesis by (simp add: double_nonzero)
qed

lemma scaled_integer:
  assumes "e \<le> j"
  shows "of_int m * 2 powi j / 2 powi e = (of_int (m * 2 ^ nat (j - e)) :: rat)"
proof -
  have "(2::rat) powi j / 2 powi e = 2 powi (j - e)" by (simp add: power_int_diff)
  also have "\<dots> = 2 ^ nat (j - e)" using assms by (simp add: power_int_def)
  finally have "(2::rat) powi j / 2 powi e = 2 ^ nat (j - e)" .
  then have "of_int m * ((2::rat) powi j / 2 powi e) = of_int m * 2 ^ nat (j - e)" by simp
  then show ?thesis by simp
qed

lemma double_representable:
  assumes "\<bar>m\<bar> < 2 ^ 53" and "- 1074 \<le> j"
  shows "double (of_int m * 2 powi j) = of_int m * 2 powi j"
proof (cases "m = 0")
  case True
  then show ?thesis by simp
next
  case False
  let ?x = "of_int m * (2::rat) powi j"
  from False have nz: "?x \<noteq> 0" by simp
  let ?E = "binade ?x"
  have "\<bar>?x\<bar> = of_int \<bar>m\<bar> * 2 powi j" by (simp add: abs_mult)
  also have "\<dots> < of_int (2 ^ 53) * 2 powi j"
    using assms(1)
    by (intro mult_strict_right_mono)
       (simp_all only: of_int_less_iff zero_less_power_int zero_less_numeral)
  also have "\<dots> = 2 powi (53 + j)" by (simp add: power_int_add)
  finally have up: "\<bar>?x\<bar> < 2 powi (53 + j)" .
  have "\<not> 53 + j \<le> ?E"
  proof
    assume "53 + j \<le> ?E"
    then have "(2::rat) powi (53 + j) \<le> 2 powi ?E" by (intro power_int_increasing) simp_all
    with binade_bounds(1)[OF nz] up show False by linarith
  qed
  with assms(2) have le: "ulp_exponent ?x \<le> j" by (simp add: ulp_exponent_def)
  have q: "?x / 2 powi ulp_exponent ?x = of_int (m * 2 ^ nat (j - ulp_exponent ?x))"
    using le by (rule scaled_integer)
  have "double ?x = of_int (m * 2 ^ nat (j - ulp_exponent ?x)) * 2 powi ulp_exponent ?x"
    by (simp only: double_nonzero[OF nz] q py_round_of_int)
  also have "\<dots> = ?x / 2 powi ulp_exponent ?x * 2 powi ulp_exponent ?x" by (simp only: q)
  also have "\<dots> = ?x" by simp
  finally show ?thesis .
qed

lemma double_of_int: "\<bar>m\<bar> < 2 ^ 53 \<Longrightarrow> double (of_int m) = of_int m"
  using double_representable[of m 0] by simp

lemma double_grid:
  assumes "d \<noteq> 0" and "double d = d"
  obtains md :: int where "d = of_int md * 2 powi ulp_exponent d"
proof -
  from assms have "d = of_int (py_round (d / 2 powi ulp_exponent d)) * 2 powi ulp_exponent d"
    by (simp add: double_nonzero)
  then show thesis by (rule that)
qed

lemma double_le:
  assumes d: "double d = d" and x: "0 \<le> x" "x \<le> d"
  shows "double x \<le> d"
proof (cases "x = 0")
  case True
  with x show ?thesis by simp
next
  case False
  with x have xp: "0 < x" by simp
  with x have dn: "d \<noteq> 0" by simp
  let ?ex = "ulp_exponent x" and ?ed = "ulp_exponent d"
  from dn d obtain md :: int where dr: "d = of_int md * 2 powi ?ed" by (rule double_grid)
  from xp x(2) have le: "?ex \<le> ?ed" by (rule ulp_exponent_mono)
  have "d / 2 powi ?ex = of_int md * 2 powi ?ed / 2 powi ?ex" using dr by simp
  also have "\<dots> = of_int (md * 2 ^ nat (?ed - ?ex))" using le by (rule scaled_integer)
  finally have q: "d / 2 powi ?ex = of_int (md * 2 ^ nat (?ed - ?ex))" .
  have "x / 2 powi ?ex \<le> d / 2 powi ?ex" using x(2) by (simp add: divide_right_mono)
  then have "x / 2 powi ?ex \<le> of_int (md * 2 ^ nat (?ed - ?ex))" by (simp only: q)
  then have "py_round (x / 2 powi ?ex) \<le> md * 2 ^ nat (?ed - ?ex)" by (rule py_round_le)
  then have "(of_int (py_round (x / 2 powi ?ex)) :: rat) \<le> of_int (md * 2 ^ nat (?ed - ?ex))"
    by (simp only: of_int_le_iff)
  then have "of_int (py_round (x / 2 powi ?ex)) * 2 powi ?ex
               \<le> of_int (md * 2 ^ nat (?ed - ?ex)) * (2::rat) powi ?ex"
    by (intro mult_right_mono) simp_all
  also have "\<dots> = d / 2 powi ?ex * 2 powi ?ex" by (simp only: q)
  also have "\<dots> = d" by simp
  finally show ?thesis using False by (simp add: double_nonzero)
qed

lemma double_ge:
  assumes d: "double d = d" and x: "0 \<le> d" "d \<le> x"
  shows "d \<le> double x"
proof (cases "d = 0")
  case True
  with x double_nonneg[of x] show ?thesis by simp
next
  case False
  with x have dp: "0 < d" and xp: "0 < x" by simp_all
  then have dn: "d \<noteq> 0" and xn: "x \<noteq> 0" by simp_all
  let ?ex = "ulp_exponent x" and ?ed = "ulp_exponent d"
  from dn d obtain md :: int where dr: "d = of_int md * 2 powi ?ed" by (rule double_grid)
  from dp x(2) have le: "?ed \<le> ?ex" by (rule ulp_exponent_mono)
  show ?thesis
  proof (cases "?ed = ?ex")
    case True
    have "d / 2 powi ?ex = of_int md * 2 powi ?ed / 2 powi ?ex" using dr by simp
    also have "\<dots> = of_int md" using True by simp
    finally have "d / 2 powi ?ex = of_int md" .
    moreover have "d / 2 powi ?ex \<le> x / 2 powi ?ex" using x(2) by (simp add: divide_right_mono)
    ultimately have "of_int md \<le> x / 2 powi ?ex" by simp
    then have "md \<le> py_round (x / 2 powi ?ex)" by (rule py_round_ge)
    then have "(of_int md :: rat) \<le> of_int (py_round (x / 2 powi ?ex))"
      by (simp only: of_int_le_iff)
    then have "of_int md * (2::rat) powi ?ex \<le> of_int (py_round (x / 2 powi ?ex)) * 2 powi ?ex"
      by (intro mult_right_mono) simp_all
    moreover have "of_int md * (2::rat) powi ?ex = d" using dr True by simp
    ultimately show ?thesis by (simp add: double_nonzero[OF xn])
  next
    case False
    with le have "?ed < ?ex" by simp
    then have lt: "binade d + 1 \<le> binade x" and ex: "?ex = binade x - 52"
      by (auto simp: ulp_exponent_def max_def split: if_splits)
    have "(2::rat) powi (binade x) \<le> \<bar>x\<bar>" by (rule binade_bounds(1)[OF xn])
    then have "(2::rat) powi (binade x) / 2 powi ?ex \<le> x / 2 powi ?ex"
      using xp by (simp add: divide_right_mono)
    moreover have "(2::rat) powi (binade x) / 2 powi ?ex = of_int (2 ^ 52)"
      unfolding ex by (simp add: power_int_diff[symmetric])
    ultimately have "of_int (2 ^ 52) \<le> x / 2 powi ?ex" by simp
    then have "2 ^ 52 \<le> py_round (x / 2 powi ?ex)" by (rule py_round_ge)
    then have "(of_int (2 ^ 52) :: rat) \<le> of_int (py_round (x / 2 powi ?ex))"
      by (simp only: of_int_le_iff)
    then have m: "of_int (2 ^ 52) * (2::rat) powi ?ex
                    \<le> of_int (py_round (x / 2 powi ?ex)) * 2 powi ?ex"
      by (intro mult_right_mono) simp_all
    have p: "of_int (2 ^ 52) * (2::rat) powi ?ex = 2 powi (binade x)"
    proof -
      have "(2::rat) powi (52 + (binade x - 52)) = 2 powi 52 * 2 powi (binade x - 52)"
        by (rule power_int_add) simp
      then show ?thesis unfolding ex by simp
    qed
    have "2 powi (binade x) \<le> double x"
      unfolding double_nonzero[OF xn] using m unfolding p .
    moreover from lt have "(2::rat) powi (binade d + 1) \<le> 2 powi (binade x)"
      by (intro power_int_increasing) simp_all
    moreover have "\<bar>d\<bar> < 2 powi (binade d + 1)" by (rule binade_bounds(2)[OF dn])
    ultimately show ?thesis using dp by linarith
  qed
qed

text \<open>The rounding error is at most half the spacing of the doubles at the number.\<close>

lemma double_error:
  assumes "\<bar>x\<bar> \<le> 2 powi n" and "- 1022 \<le> n"
  shows "\<bar>double x - x\<bar> \<le> 2 powi (n - 53)"
proof (cases "x = 0")
  case True
  then show ?thesis by simp
next
  case False
  let ?e = "ulp_exponent x"
  have "\<not> n < binade x"
  proof
    assume "n < binade x"
    then have "n + 1 \<le> binade x" by simp
    then have "(2::rat) powi (n + 1) \<le> 2 powi (binade x)"
      by (intro power_int_increasing) simp_all
    moreover have "(2::rat) powi n < 2 powi (n + 1)"
      by (intro power_int_strict_increasing) simp_all
    ultimately show False using binade_bounds(1)[OF False] assms(1) by linarith
  qed
  with assms(2) have e: "?e \<le> n - 52" by (simp add: ulp_exponent_def)
  have "\<bar>of_int (py_round (x / 2 powi ?e)) - x / 2 powi ?e\<bar> \<le> 1 / 2"
    by (rule py_round_nearest)
  then have "\<bar>of_int (py_round (x / 2 powi ?e)) - x / 2 powi ?e\<bar> * 2 powi ?e
               \<le> 1 / 2 * (2::rat) powi ?e"
    by (intro mult_right_mono) simp_all
  moreover have "\<bar>of_int (py_round (x / 2 powi ?e)) - x / 2 powi ?e\<bar> * 2 powi ?e
                   = \<bar>double x - x\<bar>"
  proof -
    have "\<bar>of_int (py_round (x / 2 powi ?e)) - x / 2 powi ?e\<bar> * 2 powi ?e
            = \<bar>(of_int (py_round (x / 2 powi ?e)) - x / 2 powi ?e) * 2 powi ?e\<bar>"
      by (simp add: abs_mult)
    also have "(of_int (py_round (x / 2 powi ?e)) - x / 2 powi ?e) * 2 powi ?e
                 = double x - x"
      by (simp add: double_nonzero[OF False] algebra_simps)
    finally show ?thesis .
  qed
  moreover have "1 / 2 * (2::rat) powi ?e \<le> 2 powi (n - 53)"
  proof -
    have "1 / 2 * (2::rat) powi ?e = 2 powi (?e - 1)" by (simp add: power_int_diff)
    also have "\<dots> \<le> 2 powi (n - 53)" using e by (intro power_int_increasing) simp_all
    finally show ?thesis .
  qed
  ultimately show ?thesis by linarith
qed

section \<open>Properties of calculate_epa_aqi\<close>

text \<open>The float literals of the PM2.5 table.\<close>

lemma double_12: "double 12 = 12"
proof -
  have r: "py_round (12 * 2 ^ 49) = 6755399441055744"
    by (rule py_round_near) simp
  have "double 12 = of_int 6755399441055744 / 2 ^ 49"
    by (rule double_scaled[OF _ _ _ r]) simp_all
  then show ?thesis by simp
qed

lemma double_12_1: "double (121 / 10) = 6811694436397875 / 562949953421312"
proof -
  have r: "py_round (121 / 10 * 2 ^ 49) = 6811694436397875"
    by (rule py_round_near) simp
  have "double (121 / 10) = of_int 6811694436397875 / 2 ^ 49"
    by (rule double_scaled[OF _ _ _ r]) simp_all
  then show ?thesis by simp
qed

lemma double_35_4: "double (177 / 5) = 4982107087778611 / 140737488355328"
proof -
  have r: "py_round (177 / 5 * 2 ^ 47) = 4982107087778611"
    by (rule py_round_near) simp
  have "double (177 / 5) = of_int 4982107087778611 / 2 ^ 47"
    by (rule double_scaled[OF _ _ _ r]) simp_all
  then show ?thesis by simp
qed

lemma double_35_5: "double (71 / 2) = 71 / 2"
proof -
  have r: "py_round (71 / 2 * 2 ^ 47) = 4996180836614144"
    by (rule py_round_near) simp
  have "double (71 / 2) = of_int 4996180836614144 / 2 ^ 47"
    by (rule double_scaled[OF _ _ _ r]) simp_all
  then show ?thesis by simp
qed

lemma double_55_4: "double (277 / 5) = 7796856854885171 / 140737488355328"
proof -
  have r: "py_round (277 / 5 * 2 ^ 47) = 7796856854885171"
    by (rule py_round_near) simp
  have "double (277 / 5) = of_int 7796856854885171 / 2 ^ 47"
    by (rule double_scaled[OF _ _ _ r]) simp_all
  then show ?thesis by simp
qed

lemma double_55_5: "double (111 / 2) = 111 / 2"
proof -
  have r: "py_round (111 / 2 * 2 ^ 47) = 7810930603720704"
    by (rule py_round_near) simp
  have "double (111 / 2) = of_int 7810930603720704 / 2 ^ 47"
    by (rule double_scaled[OF _ _ _ r]) simp_all
  then show ?thesis by simp
qed

lemma double_150_4: "double (752 / 5) = 5291729562160333 / 35184372088832"
proof -
  have r: "py_round (752 / 5 * 2 ^ 45) = 5291729562160333"
    by (rule py_round_near) simp
  have "double (752 / 5) = of_int 5291729562160333 / 2 ^ 45"
    by (rule double_scaled[OF _ _ _ r]) simp_all
  then show ?thesis by simp
qed

lemma double_150_5: "double (301 / 2) = 301 / 2"
proof -
  have r: "py_round (301 / 2 * 2 ^ 45) = 5295247999369216"
    by (rule py_round_near) simp
  have "double (301 / 2) = of_int 5295247999369216 / 2 ^ 45"
    by (rule double_scaled[OF _ _ _ r]) simp_all
  then show ?thesis by simp
qed

lemma double_250_4: "double (1252 / 5) = 8810166771043533 / 35184372088832"
proof -
  have r: "py_round (1252 / 5 * 2 ^ 45) = 8810166771043533"
    by (rule py_round_near) simp
  have "double (1252 / 5) = of_int 8810166771043533 / 2 ^ 45"
    by (rule double_scaled[OF _ _ _ r]) simp_all
  then show ?thesis by simp
qed

lemma double_250_5: "double (501 / 2) = 501 / 2"
proof -
  have r: "py_round (501 / 2 * 2 ^ 45) = 8813685208252416"
    by (rule py_round_near) simp
  have "double (501 / 2) = of_int 8813685208252416 / 2 ^ 45"
    by (rule double_scaled[OF _ _ _ r]) simp_all
  then show ?thesis by simp
qed

lemma double_350_4: "double (1752 / 5) = 3082150994981683 / 8796093022208"
proof -
  have r: "py_round (1752 / 5 * 2 ^ 44) = 6164301989963366"
    by (rule py_round_near) simp
  have "double (1752 / 5) = of_int 6164301989963366 / 2 ^ 44"
    by (rule double_scaled[OF _ _ _ r]) simp_all
  then show ?thesis by simp
qed

lemma double_350_5: "double (701 / 2) = 701 / 2"
proof -
  have r: "py_round (701 / 2 * 2 ^ 44) = 6166061208567808"
    by (rule py_round_near) simp
  have "double (701 / 2) = of_int 6166061208567808 / 2 ^ 44"
    by (rule double_scaled[OF _ _ _ r]) simp_all
  then show ?thesis by simp
qed

lemma double_500_4: "double (2502 / 5) = 4401564948312883 / 8796093022208"
proof -
  have r: "py_round (2502 / 5 * 2 ^ 44) = 8803129896625766"
    by (rule py_round_near) simp
  have "double (2502 / 5) = of_int 8803129896625766 / 2 ^ 44"
    by (rule double_scaled[OF _ _ _ r]) simp_all
  then show ?thesis by simp
qed

lemmas pm25_doubles =
  double_12 double_12_1 double_35_4 double_35_5 double_55_4 double_55_5
  double_150_4 double_150_5 double_250_4 double_250_5 double_350_4 double_350_5
  double_500_4


lemma recognized_tables:
  assumes "map_of aqi_breakpoints k = Some bps"
  shows "ascending bps \<and> bps \<noteq> [] \<and> c_low (hd bps) = 0"
  using assms by (auto simp: aqi_breakpoints_def pm25_doubles split: if_splits)

lemma ascending_tail: "ascending (b # bs) \<Longrightarrow> ascending bs"
  by (cases bs) auto

lemma ascending_band: "ascending bs \<Longrightarrow> b \<in> set bs \<Longrightarrow> c_low b < c_high b"
  by (induction bs rule: ascending.induct) auto

lemma ascending_head_below:
  "ascending (h # bs) \<Longrightarrow> b \<in> set bs \<Longrightarrow> c_high h < c_low b"
proof (induction bs arbitrary: h)
  case Nil
  then show ?case by simp
next
  case (Cons a bs)
  show ?case
  proof (cases "b = a")
    case True
    with Cons.prems show ?thesis by simp
  next
    case False
    with Cons.prems have "b \<in> set bs" and "ascending (a # bs)" by auto
    then have "c_high a < c_low b" by (rule Cons.IH[rotated])
    moreover from Cons.prems have "c_high h < c_low a" and "c_low a < c_high a" 
      by (cases bs; simp)+
    ultimately show ?thesis by linarith
  qed
qed

lemma in_band_iff: "in_band b c \<longleftrightarrow> c_low b \<le> c \<and> c \<le> c_high b"
  by (cases b) auto

lemma scan_breakpoints_band:
  "ascending bs \<Longrightarrow> b \<in> set bs \<Longrightarrow> in_band b c \<Longrightarrow> scan_breakpoints bs c = Some (interpolate b c)"
proof (induction bs)
  case Nil
  then show ?case by simp
next
  case (Cons h bs)
  show ?case
  proof (cases "b = h")
    case True
    with Cons.prems show ?thesis by simp
  next
    case False
    with Cons.prems have mem: "b \<in> set bs" by simp
    with Cons.prems have "c_high h < c_low b" by (auto dest: ascending_head_below)
    with Cons.prems have "\<not> in_band h c" by (auto simp: in_band_iff)
    moreover have "scan_breakpoints bs c = Some (interpolate b c)"
      using Cons.IH Cons.prems mem ascending_tail by blast
    ultimately show ?thesis by simp
  qed
qed

lemma scan_breakpoints_None:
  "scan_breakpoints bs c = None \<longleftrightarrow> (\<forall>b \<in> set bs. \<not> in_band b c)"
  by (induction bs) auto

lemma gap_no_band:
  "ascending bs \<Longrightarrow> Suc i < length bs \<Longrightarrow> c_high (bs ! i) < c \<Longrightarrow> c < c_low (bs ! Suc i)
     \<Longrightarrow> b \<in> set bs \<Longrightarrow> \<not> in_band b c"
proof (induction bs arbitrary: i)
  case Nil
  then show ?case by simp
next
  case (Cons h bs)
  show ?case
  proof (cases i)
    case 0
    with Cons.prems have hc: "c_high h < c" and cl: "c < c_low (hd bs)" and ne: "bs \<noteq> []"
      by (auto simp: hd_conv_nth)
    show ?thesis
    proof (cases "b = h")
      case True
      with hc show ?thesis by (simp add: in_band_iff)
    next
      case False
      with Cons.prems have mem: "b \<in> set bs" by simp
      from ne obtain a t where bs: "bs = a # t" by (cases bs) auto
      have "c_low a \<le> c_low b"
      proof (cases "b = a")
        case True
        then show ?thesis by simp
      next
        case False
        with mem bs have "b \<in> set t" by simp
        moreover from Cons.prems bs have "ascending (a # t)" using ascending_tail by blast
        ultimately have "c_high a < c_low b" by (rule ascending_head_below[rotated])
        moreover from \<open>ascending (a # t)\<close> have "c_low a < c_high a" by (cases t; simp)
        ultimately show ?thesis by linarith
      qed
      with cl bs show ?thesis by (simp add: in_band_iff)
    qed
  next
    case (Suc j)
    with Cons.prems have j: "Suc j < length bs" "c_high (bs ! j) < c" "c < c_low (bs ! Suc j)"
      by auto
    from Cons.prems have asc: "ascending bs" using ascending_tail by blast
    show ?thesis
    proof (cases "b = h")
      case True
      from j have "bs ! j \<in> set bs" by simp
      with Cons.prems have "c_high h < c_low (bs ! j)" by (auto dest: ascending_head_below)
      moreover from asc \<open>bs ! j \<in> set bs\<close> have "c_low (bs ! j) < c_high (bs ! j)"
        by (rule ascending_band)
      ultimately show ?thesis using j True by (simp add: in_band_iff)
    next
      case False
      with Cons.prems have "b \<in> set bs" by simp
      with Cons.IH[OF asc j] show ?thesis by simp
    qed
  qed
qed

lemma below_first_no_band:
  "ascending bs \<Longrightarrow> bs \<noteq> [] \<Longrightarrow> c < c_low (hd bs) \<Longrightarrow> b \<in> set bs \<Longrightarrow> \<not> in_band b c"
proof (cases bs)
  case Nil
  assume "bs \<noteq> []" with Nil show ?thesis by simp
next
  case (Cons h t)
  assume a: "ascending bs" "c < c_low (hd bs)" "b \<in> set bs"
  show ?thesis
  proof (cases "b = h")
    case True
    with a Cons show ?thesis by (simp add: in_band_iff)
  next
    case False
    with a Cons have "c_high h < c_low b" by (auto dest: ascending_head_below)
    moreover from a Cons have "c_low h < c_high h" by (cases t; simp)
    ultimately show ?thesis using a Cons by (simp add: in_band_iff)
  qed
qed

lemma above_last_no_band:
  "ascending bs \<Longrightarrow> c_high (last bs) < c \<Longrightarrow> b \<in> set bs \<Longrightarrow> \<not> in_band b c"
proof (induction bs)
  case Nil
  then show ?case by simp
next
  case (Cons h bs)
  show ?case
  proof (cases "bs = []")
    case True
    with Cons.prems show ?thesis by (simp add: in_band_iff)
  next
    case False
    then have lm: "last bs \<in> set bs" by simp
    from Cons.prems have asc: "ascending bs" using ascending_tail by blast
    show ?thesis
    proof (cases "b = h")
      case True
      from Cons.prems lm have "c_high h < c_low (last bs)" by (auto dest: ascending_head_below)
      moreover from asc lm have "c_low (last bs) < c_high (last bs)" by (rule ascending_band)
      ultimately show ?thesis using Cons.prems False True by (simp add: in_band_iff)
    next
      case False
      with Cons.prems \<open>bs \<noteq> []\<close> asc Cons.IH show ?thesis by simp
    qed
  qed
qed

lemma ascending_below_last:
  "ascending bs \<Longrightarrow> b \<in> set bs \<Longrightarrow> c_high b \<le> c_high (last bs)"
proof (induction bs)
  case Nil
  then show ?case by simp
next
  case (Cons h bs)
  show ?case
  proof (cases "bs = []")
    case True
    with Cons.prems show ?thesis by simp
  next
    case False
    then have lm: "last bs \<in> set bs" by simp
    from Cons.prems have asc: "ascending bs" using ascending_tail by blast
    show ?thesis
    proof (cases "b = h")
      case True
      from Cons.prems lm have "c_high h < c_low (last bs)" by (auto dest: ascending_head_below)
      moreover from asc lm have "c_low (last bs) < c_high (last bs)" by (rule ascending_band)
      ultimately show ?thesis using False True by simp
    next
      case False
      with Cons.prems \<open>bs \<noteq> []\<close> asc Cons.IH show ?thesis by simp
    qed
  qed
qed

text \<open>
  The interpolation in doubles against the formula in exact arithmetic: on the bands of the
  tables the five roundings move the value by less than \<open>10^-5\<close>.
\<close>

lemma double_error_bounds:
  "\<bar>x\<bar> \<le> 16 \<Longrightarrow> \<bar>double x - x\<bar> \<le> 1 / 2 ^ 49"
  "\<bar>x\<bar> \<le> 65536 \<Longrightarrow> \<bar>double x - x\<bar> \<le> 1 / 2 ^ 37"
  "\<bar>x\<bar> \<le> 524288 \<Longrightarrow> \<bar>double x - x\<bar> \<le> 1 / 2 ^ 34"
  "\<bar>x\<bar> \<le> 1048576 \<Longrightarrow> \<bar>double x - x\<bar> \<le> 1 / 2 ^ 33"
  using double_error[of x 4] double_error[of x 16] double_error[of x 19] double_error[of x 20]
  by (simp_all add: power_int_minus_divide)

lemma table_bands:
  assumes "map_of aqi_breakpoints k = Some bps" and "(cl, ch, al, ah) \<in> set bps"
  shows "0 \<le> cl \<and> cl + 12 \<le> ch \<and> ch \<le> 50400 \<and> 0 \<le> al \<and> al \<le> ah \<and> ah \<le> al + 100 \<and> al \<le> 401"
  using assms by (auto simp: aqi_breakpoints_def pm25_doubles split: if_splits)

lemma quotient_error:
  fixes w t D e :: rat
  assumes w: "0 \<le> w" "w \<le> 100" and t: "12 \<le> t" and D: "11 \<le> D" and e: "\<bar>D - t\<bar> \<le> e"
  shows "\<bar>w / D - w / t\<bar> \<le> e"
proof -
  have pos: "0 < D" "0 < t" using t D by simp_all
  have "w / D - w / t = w * (t - D) / (D * t)"
    using pos by (simp add: field_simps)
  then have "\<bar>w / D - w / t\<bar> = w * \<bar>t - D\<bar> / (D * t)"
    using pos w by (simp add: abs_mult)
  also have "\<dots> \<le> 100 * e / (D * t)"
  proof -
    have "0 \<le> e" using e by linarith
    have "w * \<bar>t - D\<bar> \<le> 100 * e"
      using w e by (intro mult_mono) (simp_all add: abs_minus_commute)
    then show ?thesis using pos by (simp add: divide_right_mono)
  qed
  also have "\<dots> \<le> e"
  proof -
    have "0 \<le> e" using e by linarith
    have "11 * 12 \<le> D * t" using t D by (intro mult_mono) simp_all
    then have "100 \<le> D * t" by simp
    then have "100 * e \<le> D * t * e" using \<open>0 \<le> e\<close> by (intro mult_right_mono) simp_all
    moreover have "0 < D * t" using pos by simp
    ultimately show ?thesis by (simp add: pos_divide_le_eq mult.commute)
  qed
  finally show ?thesis .
qed

lemma product_error:
  fixes S F q u :: rat
  assumes "\<bar>S\<bar> \<le> 10" and "\<bar>F - u\<bar> \<le> a" and "\<bar>u\<bar> \<le> 50400" and "\<bar>S - q\<bar> \<le> b"
  shows "\<bar>S * F - q * u\<bar> \<le> 10 * a + 50400 * b"
proof -
  have "S * F - q * u = S * (F - u) + u * (S - q)" by (simp add: algebra_simps)
  then have "\<bar>S * F - q * u\<bar> \<le> \<bar>S\<bar> * \<bar>F - u\<bar> + \<bar>u\<bar> * \<bar>S - q\<bar>"
    by (simp add: abs_mult[symmetric])
  moreover have "\<bar>S\<bar> * \<bar>F - u\<bar> \<le> 10 * a" using assms by (intro mult_mono) simp_all
  moreover have "\<bar>u\<bar> * \<bar>S - q\<bar> \<le> 50400 * b" using assms by (intro mult_mono) simp_all
  ultimately show ?thesis by linarith
qed

lemma interpolate_accuracy:
  assumes b: "0 \<le> cl" "cl + 12 \<le> ch" "ch \<le> 50400" "0 \<le> al" "al \<le> ah" "ah \<le> al + 100"
    "al \<le> 401"
    and c: "cl \<le> c" "c \<le> ch"
  shows "\<bar>of_int (interpolate (cl, ch, al, ah) c) - linear_interpolation (cl, ch, al, ah) c\<bar>
           \<le> 1 / 2 + 1 / 100000"
proof -
  define eps :: rat where "eps = 1 / 2 ^ 37"
  define D where "D = double (double ch - double cl)"
  define S where "S = double (of_int (ah - al) / D)"
  define F where "F = double (double c - double cl)"
  define P where "P = double (S * F)"
  define R where "R = double (P + of_int al)"
  define w :: rat where "w = of_int (ah - al)"
  define q where "q = w / (ch - cl)"
  define u where "u = c - cl"
  have eps: "0 < eps" "eps \<le> 1 / 100000000" by (simp_all add: eps_def)
  have w: "0 \<le> w" "w \<le> 100" using b by (simp_all add: w_def)
  have al: "(0::rat) \<le> of_int al" "(of_int al :: rat) \<le> 401" using b by simp_all
  have ech: "\<bar>double ch - ch\<bar> \<le> eps" unfolding eps_def using b c
    by (intro double_error_bounds(2)) simp
  have ecl: "\<bar>double cl - cl\<bar> \<le> eps" unfolding eps_def using b c
    by (intro double_error_bounds(2)) simp
  have ec: "\<bar>double c - c\<bar> \<le> eps" unfolding eps_def using b c
    by (intro double_error_bounds(2)) simp
  have "\<bar>double ch - double cl\<bar> \<le> 65536" using ech ecl eps b by linarith
  then have "\<bar>D - (double ch - double cl)\<bar> \<le> eps" unfolding eps_def D_def
    by (rule double_error_bounds(2))
  with ech ecl have eD: "\<bar>D - (ch - cl)\<bar> \<le> 3 * eps" by linarith
  with eps b have D11: "11 \<le> D" by linarith
  have eq: "\<bar>w / D - q\<bar> \<le> 3 * eps" unfolding q_def
    using w _ D11 eD by (rule quotient_error) (use b in simp)
  have q: "0 \<le> q" "q \<le> 9"
  proof -
    have p: "0 < ch - cl" using b by simp
    show "0 \<le> q" unfolding q_def using w p by simp
    have "w \<le> 9 * (ch - cl)" using w b by simp
    then show "q \<le> 9" unfolding q_def using p by (simp add: pos_divide_le_eq)
  qed
  have "\<bar>w / D\<bar> \<le> 16" using eq q eps by linarith
  then have "\<bar>double (w / D) - w / D\<bar> \<le> 1 / 2 ^ 49" by (rule double_error_bounds(1))
  then have "\<bar>S - w / D\<bar> \<le> eps" unfolding S_def w_def eps_def by simp
  with eq have eS: "\<bar>S - q\<bar> \<le> 4 * eps" by linarith
  with q eps have S10: "\<bar>S\<bar> \<le> 10" by linarith
  have u: "0 \<le> u" "u \<le> 50400" using b c by (simp_all add: u_def)
  have "\<bar>double c - double cl\<bar> \<le> 65536" using ec ecl eps b c by linarith
  then have "\<bar>F - (double c - double cl)\<bar> \<le> eps" unfolding eps_def F_def
    by (rule double_error_bounds(2))
  with ec ecl have eF: "\<bar>F - u\<bar> \<le> 3 * eps" unfolding u_def by linarith
  have u': "\<bar>u\<bar> \<le> 50400" using u by simp
  from S10 eF u' eS have "\<bar>S * F - q * u\<bar> \<le> 10 * (3 * eps) + 50400 * (4 * eps)"
    by (rule product_error)
  then have eSF: "\<bar>S * F - q * u\<bar> \<le> 201630 * eps" by simp
  have qu: "0 \<le> q * u" "q * u \<le> 9 * 50400"
  proof -
    show "0 \<le> q * u" using q u by simp
    show "q * u \<le> 9 * 50400" using q u by (intro mult_mono) simp_all
  qed
  have "\<bar>S * F\<bar> \<le> 524288" using eSF qu eps by linarith
  then have "\<bar>double (S * F) - S * F\<bar> \<le> 1 / 2 ^ 34" by (rule double_error_bounds(3))
  then have "\<bar>P - S * F\<bar> \<le> 8 * eps" unfolding P_def eps_def by simp
  with eSF have eP: "\<bar>P - q * u\<bar> \<le> 201638 * eps" by linarith
  have "\<bar>P + of_int al\<bar> \<le> 1048576" using eP qu eps al by linarith
  then have "\<bar>double (P + of_int al) - (P + of_int al)\<bar> \<le> 1 / 2 ^ 33"
    by (rule double_error_bounds(4))
  then have "\<bar>R - (P + of_int al)\<bar> \<le> 16 * eps" unfolding R_def eps_def by simp
  with eP have "\<bar>R - (q * u + of_int al)\<bar> \<le> 201654 * eps" by linarith
  moreover have "201654 * eps \<le> 1 / 100000" by (simp add: eps_def)
  ultimately have eR: "\<bar>R - (q * u + of_int al)\<bar> \<le> 1 / 100000" by linarith
  have "\<bar>of_int (py_round R) - R\<bar> \<le> 1 / 2" by (rule py_round_nearest)
  with eR have "\<bar>of_int (py_round R) - (q * u + of_int al)\<bar> \<le> 1 / 2 + 1 / 100000"
    by linarith
  moreover have "interpolate (cl, ch, al, ah) c = py_round R"
    by (simp add: R_def P_def S_def F_def D_def)
  moreover have "linear_interpolation (cl, ch, al, ah) c = q * u + of_int al"
    by (simp add: q_def u_def w_def)
  ultimately show ?thesis by simp
qed

text \<open>Runs of the interpolation in double arithmetic, each rounding certified.\<close>

lemma epa_pm25_0: "calculate_epa_aqi ''pm25'' 0 = Some 0"
proof -
  have d0: "double 12 = 12"
  proof -
    have r: "py_round (12 * 2 ^ 49) = 6755399441055744"
      by (rule py_round_near) simp
    have "double 12 = of_int 6755399441055744 / 2 ^ 49"
      by (rule double_scaled[OF _ _ _ r]) simp_all
    then show ?thesis by simp
  qed
  have d2: "double (25 / 6) = 4691249611844267 / 1125899906842624"
  proof -
    have r: "py_round (25 / 6 * 2 ^ 50) = 4691249611844267"
      by (rule py_round_near) simp
    have "double (25 / 6) = of_int 4691249611844267 / 2 ^ 50"
      by (rule double_scaled[OF _ _ _ r]) simp_all
    then show ?thesis by simp
  qed
  have r: "py_round 0 = 0" using py_round_of_int[of 0] by simp
  show ?thesis
    by (simp add: calculate_epa_aqi_def aqi_breakpoints_def lower_def lower_char_def
        pm25_doubles
        d0 d2 r)
qed

lemma epa_pm25_12: "calculate_epa_aqi ''pm25'' 12 = Some 50"
proof -
  have d0: "double 12 = 12"
  proof -
    have r: "py_round (12 * 2 ^ 49) = 6755399441055744"
      by (rule py_round_near) simp
    have "double 12 = of_int 6755399441055744 / 2 ^ 49"
      by (rule double_scaled[OF _ _ _ r]) simp_all
    then show ?thesis by simp
  qed
  have d2: "double (25 / 6) = 4691249611844267 / 1125899906842624"
  proof -
    have r: "py_round (25 / 6 * 2 ^ 50) = 4691249611844267"
      by (rule py_round_near) simp
    have "double (25 / 6) = of_int 4691249611844267 / 2 ^ 50"
      by (rule double_scaled[OF _ _ _ r]) simp_all
    then show ?thesis by simp
  qed
  have d3: "double (14073748835532801 / 281474976710656) = 50"
  proof -
    have r: "py_round (14073748835532801 / 281474976710656 * 2 ^ 47) = 7036874417766400"
      by (rule py_round_tie_down) simp_all
    have "double (14073748835532801 / 281474976710656) = of_int 7036874417766400 / 2 ^ 47"
      by (rule double_scaled[OF _ _ _ r]) simp_all
    then show ?thesis by simp
  qed
  have d4: "double 50 = 50"
  proof -
    have r: "py_round (50 * 2 ^ 47) = 7036874417766400"
      by (rule py_round_near) simp
    have "double 50 = of_int 7036874417766400 / 2 ^ 47"
      by (rule double_scaled[OF _ _ _ r]) simp_all
    then show ?thesis by simp
  qed
  have r: "py_round 50 = 50" using py_round_of_int[of 50] by simp
  show ?thesis
    by (simp add: calculate_epa_aqi_def aqi_breakpoints_def lower_def lower_char_def
        pm25_doubles
        d0 d2 d3 d4 r)
qed

lemma epa_pm25_12_1: "calculate_epa_aqi ''pm25'' (double (121 / 10)) = Some 51"
proof -
  have d0: "double (4982107087778611 / 140737488355328) = 4982107087778611 / 140737488355328"
  proof -
    have r: "py_round (4982107087778611 / 140737488355328 * 2 ^ 47) = 4982107087778611"
      by (rule py_round_near) simp
    have "double (4982107087778611 / 140737488355328) = of_int 4982107087778611 / 2 ^ 47"
      by (rule double_scaled[OF _ _ _ r]) simp_all
    then show ?thesis by simp
  qed
  have d1: "double (6811694436397875 / 562949953421312) = 6811694436397875 / 562949953421312"
  proof -
    have r: "py_round (6811694436397875 / 562949953421312 * 2 ^ 49) = 6811694436397875"
      by (rule py_round_near) simp
    have "double (6811694436397875 / 562949953421312) = of_int 6811694436397875 / 2 ^ 49"
      by (rule double_scaled[OF _ _ _ r]) simp_all
    then show ?thesis by simp
  qed
  have d2: "double (13116733914716569 / 562949953421312) = 1639591739339571 / 70368744177664"
  proof -
    have r: "py_round (13116733914716569 / 562949953421312 * 2 ^ 48) = 6558366957358284"
      by (rule py_round_tie_down) simp_all
    have "double (13116733914716569 / 562949953421312) = of_int 6558366957358284 / 2 ^ 48"
      by (rule double_scaled[OF _ _ _ r]) simp_all
    then show ?thesis by simp
  qed
  have d3: "double (3448068464705536 / 1639591739339571) = 147985771017405 / 70368744177664"
  proof -
    have r: "py_round (3448068464705536 / 1639591739339571 * 2 ^ 51) = 4735544672556960"
      by (rule py_round_near) simp
    have "double (3448068464705536 / 1639591739339571) = of_int 4735544672556960 / 2 ^ 51"
      by (rule double_scaled[OF _ _ _ r]) simp_all
    then show ?thesis by simp
  qed
  have d5: "double 51 = 51"
  proof -
    have r: "py_round (51 * 2 ^ 47) = 7177611906121728"
      by (rule py_round_near) simp
    have "double 51 = of_int 7177611906121728 / 2 ^ 47"
      by (rule double_scaled[OF _ _ _ r]) simp_all
    then show ?thesis by simp
  qed
  have r: "py_round 51 = 51" using py_round_of_int[of 51] by simp
  show ?thesis
    by (simp add: calculate_epa_aqi_def aqi_breakpoints_def lower_def lower_char_def
        pm25_doubles
        d0 d1 d2 d3 d5 r)
qed

lemma epa_pm25_35_4: "calculate_epa_aqi ''pm25'' (double (354 / 10)) = Some 100"
proof -
  have d0: "double (4982107087778611 / 140737488355328) = 4982107087778611 / 140737488355328"
  proof -
    have r: "py_round (4982107087778611 / 140737488355328 * 2 ^ 47) = 4982107087778611"
      by (rule py_round_near) simp
    have "double (4982107087778611 / 140737488355328) = of_int 4982107087778611 / 2 ^ 47"
      by (rule double_scaled[OF _ _ _ r]) simp_all
    then show ?thesis by simp
  qed
  have d1: "double (6811694436397875 / 562949953421312) = 6811694436397875 / 562949953421312"
  proof -
    have r: "py_round (6811694436397875 / 562949953421312 * 2 ^ 49) = 6811694436397875"
      by (rule py_round_near) simp
    have "double (6811694436397875 / 562949953421312) = of_int 6811694436397875 / 2 ^ 49"
      by (rule double_scaled[OF _ _ _ r]) simp_all
    then show ?thesis by simp
  qed
  have d2: "double (13116733914716569 / 562949953421312) = 1639591739339571 / 70368744177664"
  proof -
    have r: "py_round (13116733914716569 / 562949953421312 * 2 ^ 48) = 6558366957358284"
      by (rule py_round_tie_down) simp_all
    have "double (13116733914716569 / 562949953421312) = of_int 6558366957358284 / 2 ^ 48"
      by (rule double_scaled[OF _ _ _ r]) simp_all
    then show ?thesis by simp
  qed
  have d3: "double (3448068464705536 / 1639591739339571) = 147985771017405 / 70368744177664"
  proof -
    have r: "py_round (3448068464705536 / 1639591739339571 * 2 ^ 51) = 4735544672556960"
      by (rule py_round_near) simp
    have "double (3448068464705536 / 1639591739339571) = of_int 4735544672556960 / 2 ^ 51"
      by (rule double_scaled[OF _ _ _ r]) simp_all
    then show ?thesis by simp
  qed
  have d4: "double (242636247699934539467446233255 / 4951760157141521099596496896) = 49"
  proof -
    have r: "py_round (242636247699934539467446233255 / 4951760157141521099596496896 * 2 ^ 47) = 6896136929411072"
      by (rule py_round_near) simp
    have "double (242636247699934539467446233255 / 4951760157141521099596496896) = of_int 6896136929411072 / 2 ^ 47"
      by (rule double_scaled[OF _ _ _ r]) simp_all
    then show ?thesis by simp
  qed
  have d5: "double 100 = 100"
  proof -
    have r: "py_round (100 * 2 ^ 46) = 7036874417766400"
      by (rule py_round_near) simp
    have "double 100 = of_int 7036874417766400 / 2 ^ 46"
      by (rule double_scaled[OF _ _ _ r]) simp_all
    then show ?thesis by simp
  qed
  have r: "py_round 100 = 100" using py_round_of_int[of 100] by simp
  show ?thesis
    by (simp add: calculate_epa_aqi_def aqi_breakpoints_def lower_def lower_char_def
        pm25_doubles
        d0 d1 d2 d3 d4 d5 r)
qed

lemma epa_pm25_500_4: "calculate_epa_aqi ''pm25'' (double (5004 / 10)) = Some 500"
proof -
  have d0: "double (4401564948312883 / 8796093022208) = 4401564948312883 / 8796093022208"
  proof -
    have r: "py_round (4401564948312883 / 8796093022208 * 2 ^ 44) = 8803129896625766"
      by (rule py_round_near) simp
    have "double (4401564948312883 / 8796093022208) = of_int 8803129896625766 / 2 ^ 44"
      by (rule double_scaled[OF _ _ _ r]) simp_all
    then show ?thesis by simp
  qed
  have d1: "double (701 / 2) = 701 / 2"
  proof -
    have r: "py_round (701 / 2 * 2 ^ 44) = 6166061208567808"
      by (rule py_round_near) simp
    have "double (701 / 2) = of_int 6166061208567808 / 2 ^ 44"
      by (rule double_scaled[OF _ _ _ r]) simp_all
    then show ?thesis by simp
  qed
  have d2: "double (1318534344028979 / 8796093022208) = 1318534344028979 / 8796093022208"
  proof -
    have r: "py_round (1318534344028979 / 8796093022208 * 2 ^ 45) = 5274137376115916"
      by (rule py_round_near) simp
    have "double (1318534344028979 / 8796093022208) = of_int 5274137376115916 / 2 ^ 45"
      by (rule double_scaled[OF _ _ _ r]) simp_all
    then show ?thesis by simp
  qed
  have d3: "double (79164837199872 / 119866758548089) = 2974358659837753 / 4503599627370496"
  proof -
    have r: "py_round (79164837199872 / 119866758548089 * 2 ^ 53) = 5948717319675506"
      by (rule py_round_near) simp
    have "double (79164837199872 / 119866758548089) = of_int 5948717319675506 / 2 ^ 53"
      by (rule double_scaled[OF _ _ _ r]) simp_all
    then show ?thesis by simp
  qed
  have d4: "double (3921794044456084737892470244187 / 39614081257132168796771975168) = 99"
  proof -
    have r: "py_round (3921794044456084737892470244187 / 39614081257132168796771975168 * 2 ^ 46) = 6966505673588736"
      by (rule py_round_near) simp
    have "double (3921794044456084737892470244187 / 39614081257132168796771975168) = of_int 6966505673588736 / 2 ^ 46"
      by (rule double_scaled[OF _ _ _ r]) simp_all
    then show ?thesis by simp
  qed
  have d5: "double 500 = 500"
  proof -
    have r: "py_round (500 * 2 ^ 44) = 8796093022208000"
      by (rule py_round_near) simp
    have "double 500 = of_int 8796093022208000 / 2 ^ 44"
      by (rule double_scaled[OF _ _ _ r]) simp_all
    then show ?thesis by simp
  qed
  have r: "py_round 500 = 500" using py_round_of_int[of 500] by simp
  show ?thesis
    by (simp add: calculate_epa_aqi_def aqi_breakpoints_def lower_def lower_char_def
        pm25_doubles
        d0 d1 d2 d3 d4 d5 r)
qed

lemma epa_pm25_5_4: "calculate_epa_aqi ''pm25'' (double (54 / 10)) = Some 23"
proof -
  have c0: "double (27 / 5) = 3039929748475085 / 562949953421312"
  proof -
    have r: "py_round (27 / 5 * 2 ^ 50) = 6079859496950170"
      by (rule py_round_near) simp
    have "double (27 / 5) = of_int 6079859496950170 / 2 ^ 50"
      by (rule double_scaled[OF _ _ _ r]) simp_all
    then show ?thesis by simp
  qed
  have d0: "double 12 = 12"
  proof -
    have r: "py_round (12 * 2 ^ 49) = 6755399441055744"
      by (rule py_round_near) simp
    have "double 12 = of_int 6755399441055744 / 2 ^ 49"
      by (rule double_scaled[OF _ _ _ r]) simp_all
    then show ?thesis by simp
  qed
  have d2: "double (25 / 6) = 4691249611844267 / 1125899906842624"
  proof -
    have r: "py_round (25 / 6 * 2 ^ 50) = 4691249611844267"
      by (rule py_round_near) simp
    have "double (25 / 6) = of_int 4691249611844267 / 2 ^ 50"
      by (rule double_scaled[OF _ _ _ r]) simp_all
    then show ?thesis by simp
  qed
  have d3: "double (3039929748475085 / 562949953421312) = 3039929748475085 / 562949953421312"
  proof -
    have r: "py_round (3039929748475085 / 562949953421312 * 2 ^ 50) = 6079859496950170"
      by (rule py_round_near) simp
    have "double (3039929748475085 / 562949953421312) = of_int 6079859496950170 / 2 ^ 50"
      by (rule double_scaled[OF _ _ _ r]) simp_all
    then show ?thesis by simp
  qed
  have d4: "double (14261069252567582718397749587695 / 633825300114114700748351602688) = 6333186975989761 / 281474976710656"
  proof -
    have r: "py_round (14261069252567582718397749587695 / 633825300114114700748351602688 * 2 ^ 48) = 6333186975989761"
      by (rule py_round_near) simp
    have "double (14261069252567582718397749587695 / 633825300114114700748351602688) = of_int 6333186975989761 / 2 ^ 48"
      by (rule double_scaled[OF _ _ _ r]) simp_all
    then show ?thesis by simp
  qed
  have d5: "double (6333186975989761 / 281474976710656) = 6333186975989761 / 281474976710656"
  proof -
    have r: "py_round (6333186975989761 / 281474976710656 * 2 ^ 48) = 6333186975989761"
      by (rule py_round_near) simp
    have "double (6333186975989761 / 281474976710656) = of_int 6333186975989761 / 2 ^ 48"
      by (rule double_scaled[OF _ _ _ r]) simp_all
    then show ?thesis by simp
  qed
  have r: "py_round (6333186975989761 / 281474976710656) = 23" by (rule py_round_near) simp
  show ?thesis
    by (simp add: calculate_epa_aqi_def aqi_breakpoints_def lower_def lower_char_def
        pm25_doubles
        c0 d0 d2 d3 d4 d5 r)
qed

lemma epa_pm10_16_74: "calculate_epa_aqi ''pm10'' (double (1674 / 100)) = Some 15"
proof -
  have c0: "double (837 / 50) = 4711891110136381 / 281474976710656"
  proof -
    have r: "py_round (837 / 50 * 2 ^ 48) = 4711891110136381"
      by (rule py_round_near) simp
    have "double (837 / 50) = of_int 4711891110136381 / 2 ^ 48"
      by (rule double_scaled[OF _ _ _ r]) simp_all
    then show ?thesis by simp
  qed
  have d0: "double 54 = 54"
  proof -
    have r: "py_round (54 * 2 ^ 47) = 7599824371187712"
      by (rule py_round_near) simp
    have "double 54 = of_int 7599824371187712 / 2 ^ 47"
      by (rule double_scaled[OF _ _ _ r]) simp_all
    then show ?thesis by simp
  qed
  have d2: "double (25 / 27) = 8339999309945363 / 9007199254740992"
  proof -
    have r: "py_round (25 / 27 * 2 ^ 53) = 8339999309945363"
      by (rule py_round_near) simp
    have "double (25 / 27) = of_int 8339999309945363 / 2 ^ 53"
      by (rule double_scaled[OF _ _ _ r]) simp_all
    then show ?thesis by simp
  qed
  have d3: "double (4711891110136381 / 281474976710656) = 4711891110136381 / 281474976710656"
  proof -
    have r: "py_round (4711891110136381 / 281474976710656 * 2 ^ 48) = 4711891110136381"
      by (rule py_round_near) simp
    have "double (4711891110136381 / 281474976710656) = of_int 4711891110136381 / 2 ^ 48"
      by (rule double_scaled[OF _ _ _ r]) simp_all
    then show ?thesis by simp
  qed
  have d4: "double (39297168607075107951312588551303 / 2535301200456458802993406410752) = 8725724278030335 / 562949953421312"
  proof -
    have r: "py_round (39297168607075107951312588551303 / 2535301200456458802993406410752 * 2 ^ 49) = 8725724278030335"
      by (rule py_round_near) simp
    have "double (39297168607075107951312588551303 / 2535301200456458802993406410752) = of_int 8725724278030335 / 2 ^ 49"
      by (rule double_scaled[OF _ _ _ r]) simp_all
    then show ?thesis by simp
  qed
  have d5: "double (8725724278030335 / 562949953421312) = 8725724278030335 / 562949953421312"
  proof -
    have r: "py_round (8725724278030335 / 562949953421312 * 2 ^ 49) = 8725724278030335"
      by (rule py_round_near) simp
    have "double (8725724278030335 / 562949953421312) = of_int 8725724278030335 / 2 ^ 49"
      by (rule double_scaled[OF _ _ _ r]) simp_all
    then show ?thesis by simp
  qed
  have r: "py_round (8725724278030335 / 562949953421312) = 15" by (rule py_round_near) simp
  show ?thesis
    by (simp add: calculate_epa_aqi_def aqi_breakpoints_def lower_def lower_char_def
        c0 d0 d2 d3 d4 d5 r)
qed

lemma interpolate_pm10_100: "interpolate (55, 154, 51, 100) 100 = 73"
proof -
  have d0: "double 154 = 154"
  proof -
    have r: "py_round (154 * 2 ^ 45) = 5418393301680128"
      by (rule py_round_near) simp
    have "double 154 = of_int 5418393301680128 / 2 ^ 45"
      by (rule double_scaled[OF _ _ _ r]) simp_all
    then show ?thesis by simp
  qed
  have d1: "double 55 = 55"
  proof -
    have r: "py_round (55 * 2 ^ 47) = 7740561859543040"
      by (rule py_round_near) simp
    have "double 55 = of_int 7740561859543040 / 2 ^ 47"
      by (rule double_scaled[OF _ _ _ r]) simp_all
    then show ?thesis by simp
  qed
  have d2: "double 99 = 99"
  proof -
    have r: "py_round (99 * 2 ^ 46) = 6966505673588736"
      by (rule py_round_near) simp
    have "double 99 = of_int 6966505673588736 / 2 ^ 46"
      by (rule double_scaled[OF _ _ _ r]) simp_all
    then show ?thesis by simp
  qed
  have d3: "double (49 / 99) = 8916217444087043 / 18014398509481984"
  proof -
    have r: "py_round (49 / 99 * 2 ^ 54) = 8916217444087043"
      by (rule py_round_near) simp
    have "double (49 / 99) = of_int 8916217444087043 / 2 ^ 54"
      by (rule double_scaled[OF _ _ _ r]) simp_all
    then show ?thesis by simp
  qed
  have d4: "double 100 = 100"
  proof -
    have r: "py_round (100 * 2 ^ 46) = 7036874417766400"
      by (rule py_round_near) simp
    have "double 100 = of_int 7036874417766400 / 2 ^ 46"
      by (rule double_scaled[OF _ _ _ r]) simp_all
    then show ?thesis by simp
  qed
  have d5: "double 45 = 45"
  proof -
    have r: "py_round (45 * 2 ^ 47) = 6333186975989760"
      by (rule py_round_near) simp
    have "double 45 = of_int 6333186975989760 / 2 ^ 47"
      by (rule double_scaled[OF _ _ _ r]) simp_all
    then show ?thesis by simp
  qed
  have d6: "double (401229784983916935 / 18014398509481984) = 3134607695186851 / 140737488355328"
  proof -
    have r: "py_round (401229784983916935 / 18014398509481984 * 2 ^ 48) = 6269215390373702"
      by (rule py_round_near) simp
    have "double (401229784983916935 / 18014398509481984) = of_int 6269215390373702 / 2 ^ 48"
      by (rule double_scaled[OF _ _ _ r]) simp_all
    then show ?thesis by simp
  qed
  have d7: "double (10312219601308579 / 140737488355328) = 2578054900327145 / 35184372088832"
  proof -
    have r: "py_round (10312219601308579 / 140737488355328 * 2 ^ 46) = 5156109800654290"
      by (rule py_round_tie_up) simp_all
    have "double (10312219601308579 / 140737488355328) = of_int 5156109800654290 / 2 ^ 46"
      by (rule double_scaled[OF _ _ _ r]) simp_all
    then show ?thesis by simp
  qed
  have r: "py_round (2578054900327145 / 35184372088832) = 73" by (rule py_round_near) simp
  show ?thesis by (simp add: d0 d1 d2 d3 d4 d5 d6 d7 r)
qed


section \<open>Claims about calculate_epa_aqi\<close>

text \<open>
  Claim C1.  For a recognised pollutant key (compared after lower-casing) and a concentration
  inside one of the key's breakpoint bands, \<open>calculate_epa_aqi\<close> returns the interpolation of
  that band: the formula \<open>(aqi_high - aqi_low) / (c_high - c_low) * (c - c_low) + aqi_low\<close>
  evaluated in double arithmetic and rounded to a nearest integer (a tie to the even one).  The
  result is within \<open>1/2 + 10^-5\<close> of the formula's exact value, so it is a nearest integer of
  the linear interpolation up to the rounding error of the floats; where the exact value is a
  tie the floats decide: PM2.5 at the float 5.4 (in exact arithmetic 22.5 at 5.4) gives 23 and
  PM10 at the float 16.74 (in exact arithmetic 15.5 at 16.74) gives 15.
  \<open>calculate_epa_aqi('pm25', 12.0)\<close> is 50 and \<open>calculate_epa_aqi('pm25', 12.1)\<close> is 51, in
  [51, 100]; at the upper bound of that band, \<open>calculate_epa_aqi('pm25', 35.4)\<close> is 100.  (A
  float literal such as \<open>12.1\<close> is the argument \<open>double (121 / 10)\<close>.)  Every concentration above the upper bound of the last band of the key's table
  gives 500, \<open>calculate_epa_aqi('pm25', 500.4)\<close> is 500, and an unrecognised key gives no
  value.
\<close>

theorem calculate_epa_aqi_interpolates:
  "(\<forall>p bps b c. map_of aqi_breakpoints (lower p) = Some bps \<and> b \<in> set bps \<and> in_band b c
       \<longrightarrow> calculate_epa_aqi p c = Some (interpolate b c)
           \<and> \<bar>of_int (interpolate b c) - linear_interpolation b c\<bar> \<le> 1 / 2 + 1 / 100000)
   \<and> (\<forall>cl ch al ah c. interpolate (cl, ch, al, ah) c
          = py_round
              (double
                 (double (double (of_int (ah - al) / double (double ch - double cl))
                          * double (double c - double cl))
                  + of_int al)))
   \<and> (\<forall>cl ch al ah c. linear_interpolation (cl, ch, al, ah) c
          = (of_int (ah - al) / (ch - cl)) * (c - cl) + of_int al)
   \<and> (\<forall>x. \<bar>of_int (py_round x) - x\<bar> \<le> 1 / 2)
   \<and> calculate_epa_aqi ''pm25'' 12 = Some 50
   \<and> calculate_epa_aqi ''pm25'' (double (121 / 10)) = Some 51
   \<and> (\<exists>a. calculate_epa_aqi ''pm25'' (double (121 / 10)) = Some a \<and> 51 \<le> a \<and> a \<le> 100)
   \<and> calculate_epa_aqi ''pm25'' (double (354 / 10)) = Some 100
   \<and> calculate_epa_aqi ''pm25'' (double (54 / 10)) = Some 23
   \<and> linear_interpolation (0, 12, 0, 50) (54 / 10) = 45 / 2
   \<and> calculate_epa_aqi ''pm10'' (double (1674 / 100)) = Some 15
   \<and> linear_interpolation (0, 54, 0, 50) (1674 / 100) = 31 / 2
   \<and> (\<forall>p bps c. map_of aqi_breakpoints (lower p) = Some bps \<and> c_high (last bps) < c
          \<longrightarrow> calculate_epa_aqi p c = Some 500)
   \<and> calculate_epa_aqi ''pm25'' (double (5004 / 10)) = Some 500
   \<and> (\<forall>p c. map_of aqi_breakpoints (lower p) = None \<longrightarrow> calculate_epa_aqi p c = None)"
proof (intro conjI allI impI)
  fix p bps b c
  assume a: "map_of aqi_breakpoints (lower p) = Some bps \<and> b \<in> set bps \<and> in_band b c"
  then show "calculate_epa_aqi p c = Some (interpolate b c)"
    using recognized_tables[of "lower p" bps] scan_breakpoints_band[of bps b c]
    by (simp add: calculate_epa_aqi_def)
  obtain cl ch al ah where b: "b = (cl, ch, al, ah)" by (cases b)
  with a have "0 \<le> cl \<and> cl + 12 \<le> ch \<and> ch \<le> 50400 \<and> 0 \<le> al \<and> al \<le> ah
                 \<and> ah \<le> al + 100 \<and> al \<le> 401"
    using table_bands[of "lower p" bps cl ch al ah] by simp
  moreover from a b have "cl \<le> c" "c \<le> ch" by simp_all
  ultimately show "\<bar>of_int (interpolate b c) - linear_interpolation b c\<bar> \<le> 1 / 2 + 1 / 100000"
    unfolding b by (intro interpolate_accuracy) simp_all
next
  fix cl ch al ah c
  show "interpolate (cl, ch, al, ah) c
          = py_round
              (double
                 (double (double (of_int (ah - al) / double (double ch - double cl))
                          * double (double c - double cl))
                  + of_int al))"
    by simp
next
  fix cl ch al ah c
  show "linear_interpolation (cl, ch, al, ah) c
          = (of_int (ah - al) / (ch - cl)) * (c - cl) + of_int al"
    by simp
next
  fix x show "\<bar>of_int (py_round x) - x\<bar> \<le> 1 / 2" by (rule py_round_nearest)
next
  show "calculate_epa_aqi ''pm25'' 12 = Some 50" by (rule epa_pm25_12)
next
  show "calculate_epa_aqi ''pm25'' (double (121 / 10)) = Some 51" by (rule epa_pm25_12_1)
next
  show "\<exists>a. calculate_epa_aqi ''pm25'' (double (121 / 10)) = Some a \<and> 51 \<le> a \<and> a \<le> 100"
    using epa_pm25_12_1 by simp
next
  show "calculate_epa_aqi ''pm25'' (double (354 / 10)) = Some 100" by (rule epa_pm25_35_4)
next
  show "calculate_epa_aqi ''pm25'' (double (54 / 10)) = Some 23" by (rule epa_pm25_5_4)
next
  show "linear_interpolation (0, 12, 0, 50) (54 / 10) = 45 / 2" by simp
next
  show "calculate_epa_aqi ''pm10'' (double (1674 / 100)) = Some 15" by (rule epa_pm10_16_74)
next
  show "linear_interpolation (0, 54, 0, 50) (1674 / 100) = 31 / 2" by simp
next
  fix p bps c
  assume a: "map_of aqi_breakpoints (lower p) = Some bps \<and> c_high (last bps) < c"
  then have "ascending bps" using recognized_tables by blast
  with a have "\<forall>b \<in> set bps. \<not> in_band b c" using above_last_no_band by blast
  then have "scan_breakpoints bps c = None" by (simp add: scan_breakpoints_None)
  with a show "calculate_epa_aqi p c = Some 500"
    by (simp add: calculate_epa_aqi_def)
next
  show "calculate_epa_aqi ''pm25'' (double (5004 / 10)) = Some 500" by (rule epa_pm25_500_4)
next
  fix p c
  assume "map_of aqi_breakpoints (lower p) = None"
  then show "calculate_epa_aqi p c = None" by (simp add: calculate_epa_aqi_def)
qed

text \<open>
  The hypotheses of C1 at concrete inputs: PM10 at 100 lies in the band (55, 154, 51, 100),
  where the interpolation in doubles gives 73 (exactly 73.27...); ozone at 1000 is above the
  table, and \<open>unknown\<close> is no key.
\<close>

theorem calculate_epa_aqi_interpolates_witness:
  "calculate_epa_aqi ''PM10'' 100 = Some 73
   \<and> \<bar>of_int (interpolate (55, 154, 51, 100) 100) - linear_interpolation (55, 154, 51, 100) 100\<bar>
        \<le> 1 / 2 + 1 / 100000
   \<and> linear_interpolation (55, 154, 51, 100) 100 = 806 / 11
   \<and> calculate_epa_aqi ''o3'' 1000 = Some 500
   \<and> calculate_epa_aqi ''unknown'' 10 = None"
proof -
  have k1: "map_of aqi_breakpoints (lower ''PM10'')
              = Some [(0, 54, 0, 50), (55, 154, 51, 100), (155, 254, 101, 150),
                      (255, 354, 151, 200), (355, 424, 201, 300), (425, 504, 301, 400),
                      (505, 604, 401, 500)]"
    by (simp add: aqi_breakpoints_def lower_def lower_char_def)
  have k2: "map_of aqi_breakpoints (lower ''o3'')
              = Some [(0, 54, 0, 50), (55, 70, 51, 100), (71, 85, 101, 150),
                      (86, 105, 151, 200), (106, 200, 201, 300), (201, 400, 301, 400)]"
    by (simp add: aqi_breakpoints_def lower_def lower_char_def)
  have k3: "map_of aqi_breakpoints (lower ''unknown'') = None"
    by (simp add: aqi_breakpoints_def lower_def lower_char_def)
  note i = interpolate_pm10_100
  have l: "linear_interpolation (55, 154, 51, 100) 100 = 806 / 11" by simp
  note t = calculate_epa_aqi_interpolates
  from t have a1: "\<And>p bps b c. map_of aqi_breakpoints (lower p) = Some bps \<Longrightarrow> b \<in> set bps
      \<Longrightarrow> in_band b c \<Longrightarrow> calculate_epa_aqi p c = Some (interpolate b c)
           \<and> \<bar>of_int (interpolate b c) - linear_interpolation b c\<bar> \<le> 1 / 2 + 1 / 100000"
    by blast
  from t have a2: "\<And>p bps c. map_of aqi_breakpoints (lower p) = Some bps
      \<Longrightarrow> c_high (last bps) < c \<Longrightarrow> calculate_epa_aqi p c = Some 500"
    by blast
  from t have a3: "\<And>p c. map_of aqi_breakpoints (lower p) = None
      \<Longrightarrow> calculate_epa_aqi p c = None"
    by blast
  have "calculate_epa_aqi ''PM10'' 100 = Some (interpolate (55, 154, 51, 100) 100)
        \<and> \<bar>of_int (interpolate (55, 154, 51, 100) 100)
             - linear_interpolation (55, 154, 51, 100) 100\<bar> \<le> 1 / 2 + 1 / 100000"
    by (rule a1[OF k1]) simp_all
  moreover have "calculate_epa_aqi ''o3'' 1000 = Some 500"
    by (rule a2[OF k2]) simp
  moreover have "calculate_epa_aqi ''unknown'' 10 = None"
    by (rule a3[OF k3])
  ultimately show ?thesis using i l by simp
qed

text \<open>
  Claim C9.  For every recognised pollutant key, \<open>calculate_epa_aqi\<close> returns no value for a
  negative concentration and for a concentration strictly between the upper bound of one band
  and the lower bound of the next (for PM2.5, any concentration strictly between the bounds
  \<open>12.0\<close> and \<open>12.1\<close> of the table, which are the floats \<open>12\<close> and \<open>double (121 / 10)\<close>; at
  the bounds themselves the results are 50 and 51).  More generally a concentration in no
  band that is not strictly above the upper bound of the last band gives no value, so the
  fallback 500 is returned only strictly above the table.
\<close>

theorem calculate_epa_aqi_gaps:
  "(\<forall>p bps (c::rat). map_of aqi_breakpoints (lower p) = Some bps \<and> c < 0
       \<longrightarrow> calculate_epa_aqi p c = None)
   \<and> (\<forall>p bps i c. map_of aqi_breakpoints (lower p) = Some bps \<and> Suc i < length bps
          \<and> c_high (bps ! i) < c \<and> c < c_low (bps ! Suc i)
       \<longrightarrow> calculate_epa_aqi p c = None)
   \<and> (\<forall>c. 12 < c \<and> c < double (121 / 10) \<longrightarrow> calculate_epa_aqi ''pm25'' c = None)
   \<and> calculate_epa_aqi ''pm25'' 12 = Some 50
   \<and> calculate_epa_aqi ''pm25'' (double (121 / 10)) = Some 51
   \<and> (\<forall>p bps c. map_of aqi_breakpoints (lower p) = Some bps
          \<and> (\<forall>b \<in> set bps. \<not> in_band b c) \<and> c \<le> c_high (last bps)
       \<longrightarrow> calculate_epa_aqi p c = None)"
proof (intro conjI allI impI)
  fix p bps and c :: rat
  assume a: "map_of aqi_breakpoints (lower p) = Some bps \<and> c < 0"
  then have t: "ascending bps" "bps \<noteq> []" "c_low (hd bps) = 0"
    using recognized_tables by blast+
  with a have nb: "\<forall>b \<in> set bps. \<not> in_band b c" using below_first_no_band by auto
  from t have hm: "hd bps \<in> set bps" by simp
  have "c_low (hd bps) < c_high (hd bps)"
    using t(1) hm by (rule ascending_band)
  moreover have "c_high (hd bps) \<le> c_high (last bps)"
    using t(1) hm by (rule ascending_below_last)
  ultimately have "0 \<le> c_high (last bps)" using t(3) by simp
  with a nb show "calculate_epa_aqi p c = None"
    by (simp add: calculate_epa_aqi_def scan_breakpoints_None[symmetric])
next
  fix p bps i c
  assume a: "map_of aqi_breakpoints (lower p) = Some bps \<and> Suc i < length bps
          \<and> c_high (bps ! i) < c \<and> c < c_low (bps ! Suc i)"
  then have t: "ascending bps" using recognized_tables by blast
  with a have nb: "\<forall>b \<in> set bps. \<not> in_band b c" using gap_no_band by blast
  from a have m: "bps ! Suc i \<in> set bps" by simp
  with t have "c_low (bps ! Suc i) < c_high (bps ! Suc i)"
    and "c_high (bps ! Suc i) \<le> c_high (last bps)"
    using ascending_band ascending_below_last by blast+
  then have "c_low (bps ! Suc i) \<le> c_high (last bps)" by simp
  with a nb show "calculate_epa_aqi p c = None"
    by (simp add: calculate_epa_aqi_def scan_breakpoints_None[symmetric])
next
  fix c :: rat
  assume "12 < c \<and> c < double (121 / 10)"
  then show "calculate_epa_aqi ''pm25'' c = None"
    by (simp add: calculate_epa_aqi_def aqi_breakpoints_def lower_def lower_char_def
        pm25_doubles)
next
  show "calculate_epa_aqi ''pm25'' 12 = Some 50" by (rule epa_pm25_12)
next
  show "calculate_epa_aqi ''pm25'' (double (121 / 10)) = Some 51" by (rule epa_pm25_12_1)
next
  fix p bps c
  assume "map_of aqi_breakpoints (lower p) = Some bps
          \<and> (\<forall>b \<in> set bps. \<not> in_band b c) \<and> c \<le> c_high (last bps)"
  then show "calculate_epa_aqi p c = None"
    by (simp add: calculate_epa_aqi_def scan_breakpoints_None[symmetric])
qed

text \<open>
  The hypotheses of C9 at concrete inputs: PM2.5 at -1, PM10 at 54.5 (between the first two
  bands) and PM2.5 at 12.05.
\<close>

theorem calculate_epa_aqi_gaps_witness:
  "calculate_epa_aqi ''pm25'' (- 1) = None
   \<and> calculate_epa_aqi ''pm10'' (545 / 10) = None
   \<and> calculate_epa_aqi ''pm25'' (1205 / 100) = None"
proof -
  have k1: "map_of aqi_breakpoints (lower ''pm25'')
              = Some [(0, double 12, 0, 50), (double (121 / 10), double (354 / 10), 51, 100),
                      (double (355 / 10), double (554 / 10), 101, 150),
                      (double (555 / 10), double (1504 / 10), 151, 200),
                      (double (1505 / 10), double (2504 / 10), 201, 300),
                      (double (2505 / 10), double (3504 / 10), 301, 400),
                      (double (3505 / 10), double (5004 / 10), 401, 500)]"
    by (simp add: aqi_breakpoints_def lower_def lower_char_def)
  have k2: "map_of aqi_breakpoints (lower ''pm10'')
              = Some [(0, 54, 0, 50), (55, 154, 51, 100), (155, 254, 101, 150),
                      (255, 354, 151, 200), (355, 424, 201, 300), (425, 504, 301, 400),
                      (505, 604, 401, 500)]"
    by (simp add: aqi_breakpoints_def lower_def lower_char_def)
  note t = calculate_epa_aqi_gaps
  from t have a1: "\<And>p bps (c::rat). map_of aqi_breakpoints (lower p) = Some bps \<Longrightarrow> c < 0
      \<Longrightarrow> calculate_epa_aqi p c = None"
    by blast
  from t have a2: "\<And>p bps i c. map_of aqi_breakpoints (lower p) = Some bps
      \<Longrightarrow> Suc i < length bps \<Longrightarrow> c_high (bps ! i) < c \<Longrightarrow> c < c_low (bps ! Suc i)
      \<Longrightarrow> calculate_epa_aqi p c = None"
    by blast
  from t have a3: "\<And>c. 12 < c \<Longrightarrow> c < double (121 / 10) \<Longrightarrow> calculate_epa_aqi ''pm25'' c = None"
    by blast
  have "calculate_epa_aqi ''pm25'' (- 1) = None"
    by (rule a1[OF k1]) simp
  moreover have "calculate_epa_aqi ''pm10'' (545 / 10) = None"
    by (rule a2[OF k2, of 0]) simp_all
  moreover have "calculate_epa_aqi ''pm25'' (1205 / 100) = None"
    by (rule a3) (simp_all add: double_12_1)
  ultimately show ?thesis by simp
qed

section \<open>Properties of the adaptive throttle\<close>

lemma adjust_keeps_baseline: "min_interval (adjust_throttle_interval s i) = min_interval s"
  by (simp add: adjust_throttle_interval_def)

text \<open>The constants of the throttle as doubles.\<close>

lemma double_1_5: "double (3 / 2) = 3 / 2"
proof -
  have r: "py_round (3 / 2 * 2 ^ 52) = 6755399441055744"
    by (rule py_round_near) simp
  have "double (3 / 2) = of_int 6755399441055744 / 2 ^ 52"
    by (rule double_scaled[OF _ _ _ r]) simp_all
  then show ?thesis by simp
qed

lemma double_2_25: "double (9 / 4) = 9 / 4"
proof -
  have r: "py_round (9 / 4 * 2 ^ 51) = 5066549580791808"
    by (rule py_round_near) simp
  have "double (9 / 4) = of_int 5066549580791808 / 2 ^ 51"
    by (rule double_scaled[OF _ _ _ r]) simp_all
  then show ?thesis by simp
qed

lemma double_0_95: "double (19 / 20) = 4278419646001971 / 4503599627370496"
proof -
  have r: "py_round (19 / 20 * 2 ^ 53) = 8556839292003942"
    by (rule py_round_near) simp
  have "double (19 / 20) = of_int 8556839292003942 / 2 ^ 53"
    by (rule double_scaled[OF _ _ _ r]) simp_all
  then show ?thesis by simp
qed

lemma double_1_5_times_0_95: "double (12835258938005913 / 9007199254740992) = 1604407367250739 / 1125899906842624"
proof -
  have r: "py_round (12835258938005913 / 9007199254740992 * 2 ^ 52) = 6417629469002956"
    by (rule py_round_tie_down) simp_all
  have "double (12835258938005913 / 9007199254740992) = of_int 6417629469002956 / 2 ^ 52"
    by (rule double_scaled[OF _ _ _ r]) simp_all
  then show ?thesis by simp
qed

lemma double_2_times_0_95: "double (4278419646001971 / 2251799813685248) = 4278419646001971 / 2251799813685248"
proof -
  have r: "py_round (4278419646001971 / 2251799813685248 * 2 ^ 52) = 8556839292003942"
    by (rule py_round_near) simp
  have "double (4278419646001971 / 2251799813685248) = of_int 8556839292003942 / 2 ^ 52"
    by (rule double_scaled[OF _ _ _ r]) simp_all
  then show ?thesis by simp
qed

lemma double_1_9: "double (19 / 10) = 4278419646001971 / 2251799813685248"
proof -
  have r: "py_round (19 / 10 * 2 ^ 52) = 8556839292003942"
    by (rule py_round_near) simp
  have "double (19 / 10) = of_int 8556839292003942 / 2 ^ 52"
    by (rule double_scaled[OF _ _ _ r]) simp_all
  then show ?thesis by simp
qed

lemma double_one: "double 1 = 1"
  using double_of_int[of 1] by simp

lemma double_two: "double 2 = 2"
  using double_of_int[of 2] by simp

lemma double_0_95_bounds: "0 \<le> double (95 / 100)" "double (95 / 100) \<le> 1"
  by (simp_all add: double_0_95)

lemma adjust_keeps_bounds:
  assumes "0 \<le> min_interval s" "double (min_interval s) = min_interval s"
    "min_interval s \<le> min_request_interval s" "min_request_interval s \<le> 2"
  shows "min_interval s \<le> min_request_interval (adjust_throttle_interval s i)
         \<and> min_request_interval (adjust_throttle_interval s i) \<le> 2"
proof -
  let ?b = "min_interval s" and ?x = "min_request_interval s"
  from assms have x0: "0 \<le> ?x" by simp
  have up: "?b \<le> double (?x * double (3 / 2))"
  proof -
    have "?b \<le> ?x * (3 / 2)" using assms x0 by simp
    with assms(2) assms(1) have "?b \<le> double (?x * (3 / 2))" by (rule double_ge)
    then show ?thesis by (simp add: double_1_5)
  qed
  have down: "double (?x * double (95 / 100)) \<le> 2"
  proof -
    have "0 \<le> ?x * double (95 / 100)" using x0 double_0_95_bounds(1) by simp
    moreover have "?x * double (95 / 100) \<le> 2 * 1"
      using assms(4) double_0_95_bounds x0 by (intro mult_mono) simp_all
    then have "?x * double (95 / 100) \<le> 2" by simp
    ultimately show ?thesis using double_two by (intro double_le) simp_all
  qed
  from assms have "?b \<le> 2" by simp
  with up down assms show ?thesis
    by (simp add: adjust_throttle_interval_def max_request_interval_def)
qed

lemma run_keeps_bounds:
  "0 \<le> min_interval s \<Longrightarrow> double (min_interval s) = min_interval s
     \<Longrightarrow> min_interval s \<le> min_request_interval s
     \<Longrightarrow> min_request_interval s \<le> 2
     \<Longrightarrow> min_interval (run_throttle s sigs) = min_interval s
         \<and> min_interval s \<le> min_request_interval (run_throttle s sigs)
         \<and> min_request_interval (run_throttle s sigs) \<le> 2"
  unfolding run_throttle_def
proof (induction sigs arbitrary: s)
  case Nil
  then show ?case by simp
next
  case (Cons i sigs)
  let ?s = "adjust_throttle_interval s i"
  have b: "min_interval ?s = min_interval s" by (rule adjust_keeps_baseline)
  from Cons.prems have "min_interval s \<le> min_request_interval ?s \<and> min_request_interval ?s \<le> 2"
    by (rule adjust_keeps_bounds)
  with Cons.IH[of ?s] Cons.prems b show ?case by simp
qed

section \<open>Claims about the adaptive throttle\<close>

text \<open>
  Claim C6.  For every configured baseline \<open>b\<close> (a float, the minimum sleep between two
  requests, so \<open>0 \<le> b\<close>) with \<open>b \<le> 2.0\<close>, and for the default baseline 1.0, after any sequence
  of rate-limit and success signals the throttle interval lies in \<open>[b, 2.0]\<close> and the baseline
  is unchanged.  A rate-limit signal sets the interval to the float product \<open>interval * 1.5\<close>
  capped at 2.0; a success signal sets it to the float product \<open>interval * 0.95\<close>, but not below
  the baseline, when it is above the baseline and leaves it alone otherwise.  In particular
  one rate-limit signal followed by one success signal, from the baseline, stays within the
  bounds.
\<close>

theorem throttle_interval_bounds:
  assumes "0 \<le> b" and "b \<le> 2" and "double b = b"
  shows "min_interval (run_throttle (init_throttle (Some b)) sigs) = b
         \<and> b \<le> min_request_interval (run_throttle (init_throttle (Some b)) sigs)
         \<and> min_request_interval (run_throttle (init_throttle (Some b)) sigs) \<le> 2
         \<and> (\<forall>s. min_request_interval (adjust_throttle_interval s True)
                  = min (double (min_request_interval s * (3 / 2))) 2)
         \<and> (\<forall>s. min_request_interval (adjust_throttle_interval s False)
                  = (if min_interval s < min_request_interval s
                     then max (double (min_request_interval s * double (95 / 100)))
                              (min_interval s)
                     else min_request_interval s))
         \<and> b \<le> min_request_interval (run_throttle (init_throttle (Some b)) [True, False])
         \<and> min_request_interval (run_throttle (init_throttle (Some b)) [True, False]) \<le> 2
         \<and> 1 \<le> min_request_interval (run_throttle (init_throttle None) sigs)
         \<and> min_request_interval (run_throttle (init_throttle None) sigs) \<le> 2"
proof -
  let ?s = "init_throttle (Some b)"
  have i: "min_interval ?s = b" "min_request_interval ?s = b"
    by (simp_all add: init_throttle_def)
  with assms have p: "0 \<le> min_interval ?s" "double (min_interval ?s) = min_interval ?s"
    "min_interval ?s \<le> min_request_interval ?s" "min_request_interval ?s \<le> 2" by simp_all
  have "\<And>sigs. min_interval (run_throttle ?s sigs) = min_interval ?s
         \<and> min_interval ?s \<le> min_request_interval (run_throttle ?s sigs)
         \<and> min_request_interval (run_throttle ?s sigs) \<le> 2"
    using p by (rule run_keeps_bounds)
  then have r: "\<And>sigs. min_interval (run_throttle ?s sigs) = b
         \<and> b \<le> min_request_interval (run_throttle ?s sigs)
         \<and> min_request_interval (run_throttle ?s sigs) \<le> 2"
    using i by simp
  moreover have "\<forall>s. min_request_interval (adjust_throttle_interval s True)
                  = min (double (min_request_interval s * (3 / 2))) 2"
    by (simp add: adjust_throttle_interval_def max_request_interval_def double_1_5)
  moreover have "\<forall>s. min_request_interval (adjust_throttle_interval s False)
                  = (if min_interval s < min_request_interval s
                     then max (double (min_request_interval s * double (95 / 100)))
                              (min_interval s)
                     else min_request_interval s)"
    by (simp add: adjust_throttle_interval_def)
  moreover have "1 \<le> min_request_interval (run_throttle (init_throttle None) sigs)
         \<and> min_request_interval (run_throttle (init_throttle None) sigs) \<le> 2"
    using run_keeps_bounds[of "init_throttle None" sigs] double_one
    by (simp add: init_throttle_def)
  ultimately show ?thesis by blast
qed

text \<open>
  The hypotheses of C6 at baseline 1.0.  The signals rate-limit, success give 1.0, 1.5 and
  the double 1.4249999999999998 of \<open>1.5 * 0.95\<close>; rate-limit, rate-limit, success give 1.0, 1.5,
  2.0 and \<open>2.0 * 0.95\<close>, the double 1.9.
\<close>

theorem throttle_interval_bounds_witness:
  "(0::rat) \<le> 1 \<and> (1::rat) \<le> 2 \<and> double 1 = 1
   \<and> min_request_interval (run_throttle (init_throttle (Some 1)) [True, False])
       = 1604407367250739 / 1125899906842624
   \<and> min_request_interval (run_throttle (init_throttle (Some 1)) [True, True, False])
       = double (19 / 10)
   \<and> 1 \<le> min_request_interval (run_throttle (init_throttle (Some 1)) [True, True, False])
   \<and> min_request_interval (run_throttle (init_throttle (Some 1)) [True, True, False]) \<le> 2"
proof -
  have h: "(0::rat) \<le> 1" "(1::rat) \<le> 2" "double 1 = 1" by (simp_all add: double_one)
  have e1: "min_request_interval (run_throttle (init_throttle (Some 1)) [True, False])
              = 1604407367250739 / 1125899906842624"
    by (simp add: run_throttle_def init_throttle_def adjust_throttle_interval_def
        max_request_interval_def double_1_5 double_0_95 double_1_5_times_0_95)
  have e2: "min_request_interval (run_throttle (init_throttle (Some 1)) [True, True, False])
              = double (19 / 10)"
    by (simp add: run_throttle_def init_throttle_def adjust_throttle_interval_def
        max_request_interval_def double_1_5 double_2_25 double_0_95 double_2_times_0_95
        double_1_9)
  from throttle_interval_bounds[OF h, of "[True, True, False]"] e1 e2 h show ?thesis by simp
qed

section \<open>Properties of the formatting code\<close>

lemma format_fields:
  "\<exists>a s d. format_current_response cur =
      with_info (if truthy a then get_aqi_category a else unknown_info) a s d"
  by (cases "resolve_aqi cur") (auto simp: format_current_response_def)

lemma dominant_loop_idle:
  "\<forall>kv \<in> set entries. epa_aqi (snd kv) = None \<or> epa_aqi (snd kv) = Some 0
     \<Longrightarrow> foldl dominant_step acc entries = acc"
  by (induction entries arbitrary: acc) (auto simp: dominant_step_def)

lemma make_entry_category:
  "kv \<in> set (make_entry name key r) \<Longrightarrow> \<not> truthy_int (epa_aqi (snd kv))
     \<Longrightarrow> entry_category (snd kv) = None \<and> entry_color (snd kv) = None"
  by (auto simp: make_entry_def Let_def split: option.splits)

lemma pollutants_data_category:
  "kv \<in> set (pollutants_data cur) \<Longrightarrow> \<not> truthy_int (epa_aqi (snd kv))
     \<Longrightarrow> entry_category (snd kv) = None \<and> entry_color (snd kv) = None"
  unfolding pollutants_data_def set_append Un_iff
  by (elim disjE) (rule make_entry_category, assumption, assumption)+

section \<open>Claims about the zero index\<close>

text \<open>
  Claim C10.  An index of exactly 0 is treated as missing by the formatting code, because the
  category lookup is guarded by the truthiness of the value.  Whenever
  \<open>_format_current_response\<close> resolves the index to 0 (as it does when the provider's US
  index is 0), the result carries the category \<open>Unknown\<close> and the gray colour \<open>#808080\<close>.
  When no pollutant of the enhanced payload has a sub-index other than 0, the three blocks of
  its \<open>aqi\<close> object are null, no dominant pollutant is chosen, the health recommendations
  are empty and every pollutant entry has a null category and colour.
  \<open>get_aqi_category(0)\<close> itself answers with the \<open>Good\<close> band.
\<close>

theorem zero_aqi_reads_as_missing:
  "(\<forall>cur. aqi (format_current_response cur) = Some 0
       \<longrightarrow> category (format_current_response cur) = ''Unknown''
           \<and> color (format_current_response cur) = ''#808080'')
   \<and> (\<forall>cur :: current_readings.
          us_aqi cur = Some 0 \<longrightarrow> aqi (format_current_response cur) = Some 0)
   \<and> (\<forall>cur e. enhance_with_aqi_calculations (Some cur) = Inr e
          \<and> (\<forall>kv \<in> set (pollutants_data cur). epa_aqi (snd kv) = None \<or> epa_aqi (snd kv) = Some 0)
       \<longrightarrow> local_epa_aqi e = None \<and> uaqi e = None \<and> national_aqi e = None
           \<and> enhanced_dominant e = None \<and> health_recommendations e = []
           \<and> (\<forall>kv \<in> set (pollutants e).
                 entry_category (snd kv) = None \<and> entry_color (snd kv) = None))
   \<and> category (get_aqi_category (Some 0)) = ''Good''
   \<and> color (get_aqi_category (Some 0)) = ''#00E400''"
proof (intro conjI allI impI)
  fix cur
  assume a: "aqi (format_current_response cur) = Some 0"
  obtain v s d where f: "format_current_response cur =
      with_info (if truthy v then get_aqi_category v else unknown_info) v s d"
    using format_fields by blast
  with a have "v = Some 0" by (simp add: with_info_def)
  with f show "category (format_current_response cur) = ''Unknown''"
    and "color (format_current_response cur) = ''#808080''"
    by (simp_all add: with_info_def truthy_def unknown_info_def)
next
  fix cur :: current_readings
  assume "us_aqi cur = Some 0"
  then show "aqi (format_current_response cur) = Some 0"
    by (simp add: format_current_response_def resolve_aqi_def with_info_def)
next
  fix cur e
  assume a: "enhance_with_aqi_calculations (Some cur) = Inr e
          \<and> (\<forall>kv \<in> set (pollutants_data cur). epa_aqi (snd kv) = None \<or> epa_aqi (snd kv) = Some 0)"
  then have idle: "dominant_loop (pollutants_data cur) = (0, None)"
    by (simp add: dominant_loop_def dominant_loop_idle)
  with a have e: "e = \<lparr>local_epa_aqi = None, uaqi = None, national_aqi = None,
                   pollutants = pollutants_data cur, enhanced_dominant = None,
                   health_recommendations = []\<rparr>"
    by (simp add: enhance_with_aqi_calculations_def Let_def truthy_int_def recommendations_def)
  then show "local_epa_aqi e = None" "uaqi e = None" "national_aqi e = None"
    "enhanced_dominant e = None" "health_recommendations e = []"
    by simp_all
  show "\<forall>kv \<in> set (pollutants e). entry_category (snd kv) = None \<and> entry_color (snd kv) = None"
  proof
    fix kv assume m: "kv \<in> set (pollutants e)"
    with e have m': "kv \<in> set (pollutants_data cur)" by simp
    with a have "\<not> truthy_int (epa_aqi (snd kv))" by (auto simp: truthy_int_def)
    with m' show "entry_category (snd kv) = None \<and> entry_color (snd kv) = None"
      by (rule pollutants_data_category)
  qed
next
  show "category (get_aqi_category (Some 0)) = ''Good''"
    by (simp add: get_aqi_category_def py_int_def)
next
  show "color (get_aqi_category (Some 0)) = ''#00E400''"
    by (simp add: get_aqi_category_def py_int_def)
qed

text \<open>
  The hypotheses of C10 at readings whose US index and PM2.5 concentration are both 0.
\<close>

theorem zero_aqi_reads_as_missing_witness:
  "aqi (format_current_response zero_readings) = Some 0
   \<and> category (format_current_response zero_readings) = ''Unknown''
   \<and> color (format_current_response zero_readings) = ''#808080''
   \<and> enhance_with_aqi_calculations (Some zero_readings)
       = Inr \<lparr>local_epa_aqi = None, uaqi = None, national_aqi = None,
               pollutants = [(''pm25'', \<lparr>reading = 0, epa_aqi = Some 0, entry_category = None,
                                          entry_color = None\<rparr>)],
               enhanced_dominant = None, health_recommendations = []\<rparr>"
proof -
  note t = zero_aqi_reads_as_missing
  have z: "us_aqi zero_readings = Some 0" by (simp add: zero_readings_def)
  from t z have a: "aqi (format_current_response zero_readings) = Some 0" by blast
  from t a have c: "category (format_current_response zero_readings) = ''Unknown''
           \<and> color (format_current_response zero_readings) = ''#808080''" by blast
  have pm: "calculate_epa_aqi ''pm25'' 0 = Some 0" by (rule epa_pm25_0)
  have pd: "pollutants_data zero_readings
     = [(''pm25'', \<lparr>reading = 0, epa_aqi = Some 0, entry_category = None, entry_color = None\<rparr>)]"
    by (simp add: pollutants_data_def make_entry_def zero_readings_def pm truthy_int_def)
  obtain e where e: "enhance_with_aqi_calculations (Some zero_readings) = Inr e"
    by (simp add: enhance_with_aqi_calculations_def Let_def)
  then have p: "pollutants e = pollutants_data zero_readings"
    by (auto simp: enhance_with_aqi_calculations_def Let_def)
  have h: "\<forall>kv \<in> set (pollutants_data zero_readings).
             epa_aqi (snd kv) = None \<or> epa_aqi (snd kv) = Some 0"
    by (simp add: pd)
  from t e h have "local_epa_aqi e = None \<and> uaqi e = None \<and> national_aqi e = None
           \<and> enhanced_dominant e = None \<and> health_recommendations e = []"
    by blast
  with p pd have "e = \<lparr>local_epa_aqi = None, uaqi = None, national_aqi = None,
               pollutants = [(''pm25'', \<lparr>reading = 0, epa_aqi = Some 0, entry_category = None,
                                          entry_color = None\<rparr>)],
               enhanced_dominant = None, health_recommendations = []\<rparr>"
    by simp
  with a c e show ?thesis by simp
qed

section \<open>Properties of build_worst_aqi_rankings\<close>

lemma dict_set_keys:
  "fst ` set (dict_set k v m) = insert k (fst ` set m)"
  by (induction m) auto

lemma dict_set_distinct:
  "distinct (map fst m) \<Longrightarrow> distinct (map fst (dict_set k v m))"
proof (induction m)
  case Nil
  then show ?case by simp
next
  case (Cons p ps)
  then show ?case
    using dict_set_keys[of k v ps] by (auto simp: image_iff)
qed

lemma dict_set_lookup:
  "map_of (dict_set k v m) = (map_of m)(k \<mapsto> v)"
  by (induction m) (auto simp: fun_eq_iff)

lemma dict_set_length: "length (dict_set k v m) \<le> Suc (length m)"
  by (induction m) auto

lemma kept_worst_replace:
  assumes inv: "kept_worst L m S"
    and le: "\<forall>y \<in> S. city_key L y = city_key L x \<longrightarrow> obs_aqi y \<le> obs_aqi x"
  shows "kept_worst L (dict_set (city_key L x) x m) (insert x S)"
  unfolding kept_worst_def dict_set_lookup
proof (intro conjI)
  from inv show "distinct (map fst (dict_set (city_key L x) x m))"
    by (simp add: kept_worst_def dict_set_distinct)
next
  show "\<forall>k obs. ((map_of m)(city_key L x \<mapsto> x)) k = Some obs \<longrightarrow>
        k = city_key L obs \<and> obs \<in> insert x S
        \<and> (\<forall>y \<in> insert x S. city_key L y = k \<longrightarrow> obs_aqi y \<le> obs_aqi obs)"
  proof (intro allI impI)
  fix k obs
  assume l: "((map_of m)(city_key L x \<mapsto> x)) k = Some obs"
  show "k = city_key L obs \<and> obs \<in> insert x S
        \<and> (\<forall>y \<in> insert x S. city_key L y = k \<longrightarrow> obs_aqi y \<le> obs_aqi obs)"
  proof (cases "k = city_key L x")
    case True
    with l have "obs = x" by simp
    with True le show ?thesis by simp
  next
    case False
    with l have "map_of m k = Some obs" by simp
    with inv have "k = city_key L obs" "obs \<in> S"
      "\<forall>y \<in> S. city_key L y = k \<longrightarrow> obs_aqi y \<le> obs_aqi obs"
      unfolding kept_worst_def by blast+
    with False show ?thesis by auto
  qed
  qed
next
  show "\<forall>y \<in> insert x S. ((map_of m)(city_key L x \<mapsto> x)) (city_key L y) \<noteq> None"
  proof
    fix y
    assume "y \<in> insert x S"
    then have "y = x \<or> y \<in> S" by simp
    moreover from inv have "\<forall>y \<in> S. map_of m (city_key L y) \<noteq> None"
      unfolding kept_worst_def by blast
    ultimately show "((map_of m)(city_key L x \<mapsto> x)) (city_key L y) \<noteq> None"
      by (cases "city_key L y = city_key L x") auto
  qed
qed

lemma kept_worst_keep:
  assumes inv: "kept_worst L m S"
    and l: "map_of m (city_key L x) = Some kept"
    and le: "obs_aqi x \<le> obs_aqi kept"
  shows "kept_worst L m (insert x S)"
  unfolding kept_worst_def
proof (intro conjI)
  from inv show "distinct (map fst m)" by (simp add: kept_worst_def)
next
  show "\<forall>k obs. map_of m k = Some obs \<longrightarrow> k = city_key L obs \<and> obs \<in> insert x S
        \<and> (\<forall>y \<in> insert x S. city_key L y = k \<longrightarrow> obs_aqi y \<le> obs_aqi obs)"
  proof (intro allI impI)
  fix k obs
  assume lk: "map_of m k = Some obs"
  with inv have o: "k = city_key L obs" "obs \<in> S"
    "\<forall>y \<in> S. city_key L y = k \<longrightarrow> obs_aqi y \<le> obs_aqi obs"
    unfolding kept_worst_def by blast+
  have "city_key L x = k \<longrightarrow> obs_aqi x \<le> obs_aqi obs"
    using l lk le by auto
  with o show "k = city_key L obs \<and> obs \<in> insert x S
        \<and> (\<forall>y \<in> insert x S. city_key L y = k \<longrightarrow> obs_aqi y \<le> obs_aqi obs)"
    by simp
  qed
next
  show "\<forall>y \<in> insert x S. map_of m (city_key L y) \<noteq> None"
  proof
    fix y
    assume "y \<in> insert x S"
    then have "y = x \<or> y \<in> S" by simp
    moreover from inv have "\<forall>y \<in> S. map_of m (city_key L y) \<noteq> None"
      unfolding kept_worst_def by blast
    ultimately show "map_of m (city_key L y) \<noteq> None" using l by auto
  qed
qed

lemma kept_worst_step:
  assumes "kept_worst L m S"
  shows "kept_worst L (record_observation L m x) (insert x S)"
proof (cases "map_of m (city_key L x)")
  case None
  then have r: "record_observation L m x = dict_set (city_key L x) x m"
    by (simp add: record_observation_def)
  have "\<forall>y \<in> S. city_key L y \<noteq> city_key L x"
  proof
    fix y assume "y \<in> S"
    with assms have "map_of m (city_key L y) \<noteq> None" unfolding kept_worst_def by blast
    with None show "city_key L y \<noteq> city_key L x" by auto
  qed
  then have "\<forall>y \<in> S. city_key L y = city_key L x \<longrightarrow> obs_aqi y \<le> obs_aqi x" by simp
  with assms show ?thesis unfolding r by (rule kept_worst_replace)
next
  case (Some kept)
  show ?thesis
  proof (cases "obs_aqi kept < obs_aqi x")
    case True
    with Some have r: "record_observation L m x = dict_set (city_key L x) x m"
      by (simp add: record_observation_def)
    from assms Some have "\<forall>y \<in> S. city_key L y = city_key L x \<longrightarrow> obs_aqi y \<le> obs_aqi kept"
      unfolding kept_worst_def by blast
    with True have "\<forall>y \<in> S. city_key L y = city_key L x \<longrightarrow> obs_aqi y \<le> obs_aqi x"
      by fastforce
    with assms show ?thesis unfolding r by (rule kept_worst_replace)
  next
    case False
    with Some have r: "record_observation L m x = m"
      by (simp add: record_observation_def)
    from False have "obs_aqi x \<le> obs_aqi kept" by simp
    with assms Some show ?thesis unfolding r by (rule kept_worst_keep)
  qed
qed

lemma kept_worst_deduplicate: "kept_worst L (deduplicate L xs) (set xs)"
proof (induction xs rule: rev_induct)
  case Nil
  show ?case by (simp add: deduplicate_def kept_worst_def)
next
  case (snoc x xs)
  have "deduplicate L (xs @ [x]) = record_observation L (deduplicate L xs) x"
    by (simp add: deduplicate_def)
  moreover have "set (xs @ [x]) = insert x (set xs)" by simp
  ultimately show ?case using kept_worst_step[OF snoc.IH, of x] by simp
qed

lemma record_observation_length: "length (record_observation L m x) \<le> Suc (length m)"
  by (auto simp: record_observation_def dict_set_length split: option.split)

lemma deduplicate_length: "length (deduplicate L xs) \<le> length xs"
proof (induction xs rule: rev_induct)
  case Nil
  show ?case by (simp add: deduplicate_def)
next
  case (snoc x xs)
  have "deduplicate L (xs @ [x]) = record_observation L (deduplicate L xs) x"
    by (simp add: deduplicate_def)
  with record_observation_length[of L "deduplicate L xs" x] snoc show ?case by simp
qed

lemma kept_worst_values:
  assumes "kept_worst L m S" and "obs \<in> set (map snd m)"
  shows "obs \<in> S \<and> (\<forall>x \<in> S. city_key L x = city_key L obs \<longrightarrow> obs_aqi x \<le> obs_aqi obs)"
proof -
  from assms(2) obtain k where "(k, obs) \<in> set m" by auto
  with assms(1) have "map_of m k = Some obs" by (simp add: kept_worst_def)
  with assms(1) show ?thesis unfolding kept_worst_def by blast
qed

lemma kept_worst_keys:
  assumes "kept_worst L m S"
  shows "map (city_key L) (map snd m) = map fst m"
proof -
  have "\<forall>p \<in> set m. city_key L (snd p) = fst p"
  proof
    fix p assume "p \<in> set m"
    then have "(fst p, snd p) \<in> set m" by simp
    with assms have "map_of m (fst p) = Some (snd p)" by (simp add: kept_worst_def)
    with assms show "city_key L (snd p) = fst p" unfolding kept_worst_def by metis
  qed
  then show ?thesis by simp
qed

lemma kept_worst_covers:
  assumes "kept_worst L m S" and "x \<in> S"
  shows "\<exists>obs \<in> set (map snd m). city_key L obs = city_key L x \<and> obs_aqi x \<le> obs_aqi obs"
proof -
  from assms obtain obs where l: "map_of m (city_key L x) = Some obs"
    unfolding kept_worst_def by blast
  then have "(city_key L x, obs) \<in> set m" by (rule map_of_SomeD)
  then have "obs \<in> set (map snd m)" by force
  moreover from assms l have "city_key L obs = city_key L x" "obs_aqi x \<le> obs_aqi obs"
    unfolding kept_worst_def by metis+
  ultimately show ?thesis by blast
qed

lemma distinct_map_insort_key:
  "distinct (map g (insort_key f x xs)) \<longleftrightarrow> g x \<notin> g ` set xs \<and> distinct (map g xs)"
  by (induction xs) (auto simp: set_insort_key)

lemma distinct_map_sort_key:
  "distinct (map g (sort_key f xs)) \<longleftrightarrow> distinct (map g xs)"
  by (induction xs) (auto simp: sort_key_simps distinct_map_insort_key)

lemma slice_to_subset: "set (slice_to n xs) \<subseteq> set xs"
  by (auto simp: slice_to_def dest: in_set_takeD)

lemma slice_to_take: "\<exists>k. slice_to n xs = take k xs"
  by (auto simp: slice_to_def)

lemma assign_ranks_length: "length (assign_ranks xs) = length xs"
  by (simp del: upt_Suc add: assign_ranks_def)

lemma assign_ranks_nth:
  "i < length xs \<Longrightarrow> assign_ranks xs ! i = (xs ! i)\<lparr>rank := Some (Suc i)\<rparr>"
  by (simp del: upt_Suc add: assign_ranks_def)

lemma assign_ranks_city_key: "map (city_key L) (assign_ranks xs) = map (city_key L) xs"
  by (rule nth_equalityI) (simp_all add: assign_ranks_length assign_ranks_nth city_key_def)

lemma assign_ranks_obs_aqi: "map obs_aqi (assign_ranks xs) = map obs_aqi xs"
  by (rule nth_equalityI) (simp_all add: assign_ranks_length assign_ranks_nth)

lemma assign_ranks_rank: "map rank (assign_ranks xs) = map Some [1 ..< Suc (length xs)]"
  by (rule nth_equalityI) (simp_all del: upt_Suc add: assign_ranks_length assign_ranks_nth)

lemma assign_ranks_set:
  assumes "obs \<in> set (assign_ranks xs)"
  shows "\<exists>y \<in> set xs. \<exists>r. obs = y\<lparr>rank := r\<rparr>"
proof -
  from assms obtain i where "i < length xs" and "obs = assign_ranks xs ! i"
    by (auto simp: in_set_conv_nth assign_ranks_length)
  then have "obs = (xs ! i)\<lparr>rank := Some (Suc i)\<rparr>" and "xs ! i \<in> set xs"
    by (simp_all add: assign_ranks_nth)
  then show ?thesis by blast
qed

lemma ranked_source:
  assumes "obs \<in> set (build_worst_aqi_rankings L n xs)"
  shows "\<exists>y \<in> set (map snd (deduplicate L xs)). \<exists>r. obs = y\<lparr>rank := r\<rparr>"
proof -
  let ?A = "sort_key (\<lambda>obs. - obs_aqi obs) (map snd (deduplicate L xs))"
  from assms have "obs \<in> set (assign_ranks (slice_to n ?A))"
    by (simp add: build_worst_aqi_rankings_def)
  then have "\<exists>y \<in> set (slice_to n ?A). \<exists>r. obs = y\<lparr>rank := r\<rparr>"
    by (rule assign_ranks_set)
  then obtain y r where y: "y \<in> set (slice_to n ?A)" and o: "obs = y\<lparr>rank := r\<rparr>"
    by (elim bexE exE)
  from y have "y \<in> set ?A" by (rule subsetD[OF slice_to_subset])
  then have "y \<in> set (map snd (deduplicate L xs))" by simp
  with o show ?thesis by blast
qed

lemma rankings_distinct: "distinct (map (city_key L) (build_worst_aqi_rankings L n xs))"
proof -
  let ?m = "deduplicate L xs"
  let ?A = "sort_key (\<lambda>obs. - obs_aqi obs) (map snd ?m)"
  have inv: "kept_worst L ?m (set xs)" by (rule kept_worst_deduplicate)
  then have "distinct (map (city_key L) (map snd ?m))"
    by (simp only: kept_worst_keys) (simp add: kept_worst_def)
  then have d: "distinct (map (city_key L) ?A)" by (simp only: distinct_map_sort_key)
  obtain k where k: "slice_to n ?A = take k ?A" using slice_to_take by blast
  have "map (city_key L) (slice_to n ?A) = take k (map (city_key L) ?A)"
    by (simp add: k take_map)
  with d have "distinct (map (city_key L) (slice_to n ?A))" by (simp add: distinct_take)
  then show ?thesis
    by (simp add: build_worst_aqi_rankings_def assign_ranks_city_key)
qed

lemma rankings_sorted:
  "sorted_wrt (\<lambda>a b. b \<le> a) (map obs_aqi (build_worst_aqi_rankings L n xs))"
proof -
  let ?A = "sort_key (\<lambda>obs. - obs_aqi obs) (map snd (deduplicate L xs))"
  have "sorted (map (\<lambda>obs. - obs_aqi obs) ?A)" by (rule sorted_sort_key)
  then have s: "sorted_wrt (\<lambda>a b. obs_aqi b \<le> obs_aqi a) ?A"
    by (simp add: sorted_map)
  obtain k where k: "slice_to n ?A = take k ?A" using slice_to_take by blast
  from s have "sorted_wrt (\<lambda>a b. obs_aqi b \<le> obs_aqi a) (take k ?A)"
    by (rule sorted_wrt_take)
  then have "sorted_wrt (\<lambda>a b. b \<le> a) (map obs_aqi (slice_to n ?A))"
    by (simp add: k sorted_wrt_map)
  then show ?thesis
    by (simp add: build_worst_aqi_rankings_def assign_ranks_obs_aqi)
qed

lemma rankings_ranks:
  "map rank (build_worst_aqi_rankings L n xs)
     = map Some [1 ..< Suc (length (build_worst_aqi_rankings L n xs))]"
  by (simp del: upt_Suc add: build_worst_aqi_rankings_def assign_ranks_rank assign_ranks_length)

lemma rankings_length:
  "0 \<le> n \<Longrightarrow> length (build_worst_aqi_rankings L n xs) \<le> nat n"
  by (simp add: build_worst_aqi_rankings_def assign_ranks_length slice_to_def)

lemma rankings_complete:
  assumes "int (length xs) \<le> n" and "x \<in> set xs"
  shows "\<exists>obs \<in> set (build_worst_aqi_rankings L n xs).
           city_key L obs = city_key L x \<and> obs_aqi x \<le> obs_aqi obs"
proof -
  let ?m = "deduplicate L xs"
  let ?A = "sort_key (\<lambda>obs. - obs_aqi obs) (map snd ?m)"
  have "length ?A \<le> length xs" using deduplicate_length[of L xs] by simp
  with assms(1) have all: "slice_to n ?A = ?A" by (simp add: slice_to_def)
  have "kept_worst L ?m (set xs)" by (rule kept_worst_deduplicate)
  then have "\<exists>obs \<in> set (map snd ?m). city_key L obs = city_key L x \<and> obs_aqi x \<le> obs_aqi obs"
    using assms(2) by (rule kept_worst_covers)
  then obtain y where y: "y \<in> set (map snd ?m)" "city_key L y = city_key L x"
    "obs_aqi x \<le> obs_aqi y"
    by (elim bexE conjE)
  then have "y \<in> set ?A" by simp
  then obtain i where i: "i < length ?A" "?A ! i = y"
    unfolding in_set_conv_nth by blast
  let ?o = "assign_ranks ?A ! i"
  from i have o: "?o = y\<lparr>rank := Some (Suc i)\<rparr>" by (simp add: assign_ranks_nth)
  from i have "?o \<in> set (assign_ranks ?A)" by (simp add: assign_ranks_length)
  then have "?o \<in> set (build_worst_aqi_rankings L n xs)"
    by (simp add: build_worst_aqi_rankings_def all)
  moreover from o y have "city_key L ?o = city_key L x" "obs_aqi x \<le> obs_aqi ?o"
    by (simp_all add: city_key_def)
  ultimately show ?thesis by blast
qed

lemma assign_ranks_take: "assign_ranks (take k xs) = take k (assign_ranks xs)"
  by (rule nth_equalityI) (simp_all add: assign_ranks_length assign_ranks_nth)

lemma assign_ranks_slice: "assign_ranks (slice_to n xs) = slice_to n (assign_ranks xs)"
  by (simp add: slice_to_def assign_ranks_take assign_ranks_length)

lemma rankings_cut: "build_worst_aqi_rankings L n xs = slice_to n (full_ranking L xs)"
  by (simp add: build_worst_aqi_rankings_def full_ranking_def assign_ranks_slice)

lemma full_ranking_uncut: "full_ranking L xs = build_worst_aqi_rankings L (int (length xs)) xs"
proof -
  let ?A = "sort_key (\<lambda>obs. - obs_aqi obs) (map snd (deduplicate L xs))"
  have "length ?A \<le> length xs" using deduplicate_length[of L xs] by simp
  then have "slice_to (int (length xs)) ?A = ?A" by (simp add: slice_to_def)
  then show ?thesis by (simp add: build_worst_aqi_rankings_def full_ranking_def)
qed

lemma rankings_cut_off:
  assumes "0 \<le> n" and "i < length (build_worst_aqi_rankings L n xs)"
    and "length (build_worst_aqi_rankings L n xs) \<le> j" and "j < length (full_ranking L xs)"
  shows "obs_aqi (full_ranking L xs ! j) \<le> obs_aqi (build_worst_aqi_rankings L n xs ! i)"
proof -
  let ?F = "full_ranking L xs"
  from assms(1) have b: "build_worst_aqi_rankings L n xs = take (nat n) ?F"
    by (simp add: rankings_cut slice_to_def)
  with assms(2) have i: "i < length ?F" "build_worst_aqi_rankings L n xs ! i = ?F ! i"
    by simp_all
  from assms have ij: "i < j" by simp
  have "sorted_wrt (\<lambda>a b. b \<le> a) (map obs_aqi ?F)"
    unfolding full_ranking_uncut by (rule rankings_sorted)
  then have "sorted_wrt (\<lambda>a b. obs_aqi b \<le> obs_aqi a) ?F" by (simp add: sorted_wrt_map)
  then have "obs_aqi (?F ! j) \<le> obs_aqi (?F ! i)"
    using ij assms(4) by (rule sorted_wrt_nth_less)
  with i show ?thesis by simp
qed

lemma rankings_same_key_pair:
  assumes "city_key L a = city_key L b" and "obs_aqi a < obs_aqi b"
  shows "build_worst_aqi_rankings L 30 [a, b] = [b\<lparr>rank := Some 1\<rparr>]"
    and "build_worst_aqi_rankings L 30 [b, a] = [b\<lparr>rank := Some 1\<rparr>]"
  using assms
  by (simp_all add: build_worst_aqi_rankings_def deduplicate_def record_observation_def
      slice_to_def assign_ranks_def)

section \<open>Claims about build_worst_aqi_rankings\<close>

text \<open>
  Claim C4, as amended.  For every lower-casing function, \<open>build_worst_aqi_rankings\<close>
  de-duplicates the station observations by the lower-cased \<open>city_country\<close> key: the keys of
  the returned entries are pairwise different, every returned entry is one of the observations
  (with its rank set) and its index is at least the index of every observation with the same
  key, and when \<open>top_n\<close> does not cut the list every observed key is present.  Two readings for
  one key with the indices 80 and 120, in either order, give one entry, the reading with the
  index 120; \<open>Delhi_India\<close> and \<open>DELHI_india\<close> are such a pair.  The returned list is sorted by
  index in descending order, equal indices allowed, its ranks are 1..N in that order, and it
  has at most \<open>top_n\<close> entries.  It is the beginning of the whole ranking: the whole sorted
  list with the ranks 1, 2, ... cut by the slice \<open>[:top_n]\<close>, for \<open>0 \<le> top_n\<close> its first
  \<open>top_n\<close> entries, so every entry that is cut off has an index no higher than every entry that
  is returned; the whole ranking holds every observed key once.
\<close>

theorem rankings_worst_per_city:
  "distinct (map (city_key L) (build_worst_aqi_rankings L n xs))
   \<and> (\<forall>obs \<in> set (build_worst_aqi_rankings L n xs).
         (\<exists>x \<in> set xs. city obs = city x \<and> country obs = country x \<and> obs_aqi obs = obs_aqi x)
         \<and> (\<forall>x \<in> set xs. city_key L x = city_key L obs \<longrightarrow> obs_aqi x \<le> obs_aqi obs))
   \<and> (int (length xs) \<le> n \<longrightarrow>
         (\<forall>x \<in> set xs. \<exists>obs \<in> set (build_worst_aqi_rankings L n xs).
            city_key L obs = city_key L x \<and> obs_aqi x \<le> obs_aqi obs))
   \<and> (\<forall>a b. city_key L a = city_key L b \<and> obs_aqi a = 80 \<and> obs_aqi b = 120 \<longrightarrow>
         build_worst_aqi_rankings L 30 [a, b] = [b\<lparr>rank := Some 1\<rparr>]
         \<and> build_worst_aqi_rankings L 30 [b, a] = [b\<lparr>rank := Some 1\<rparr>])
   \<and> build_worst_aqi_rankings lower 30
         [station ''Delhi'' ''India'' 80, station ''DELHI'' ''india'' 120]
       = [\<lparr>city = ''DELHI'', country = ''india'', obs_aqi = 120, rank = Some 1\<rparr>]
   \<and> sorted_wrt (\<lambda>a b. b \<le> a) (map obs_aqi (build_worst_aqi_rankings L n xs))
   \<and> map rank (build_worst_aqi_rankings L n xs)
       = map Some [1 ..< Suc (length (build_worst_aqi_rankings L n xs))]
   \<and> (0 \<le> n \<longrightarrow> length (build_worst_aqi_rankings L n xs) \<le> nat n)
   \<and> build_worst_aqi_rankings L n xs = slice_to n (full_ranking L xs)
   \<and> (0 \<le> n \<longrightarrow> build_worst_aqi_rankings L n xs = take (nat n) (full_ranking L xs))
   \<and> (0 \<le> n \<longrightarrow>
         (\<forall>i j. i < length (build_worst_aqi_rankings L n xs)
                \<and> length (build_worst_aqi_rankings L n xs) \<le> j \<and> j < length (full_ranking L xs)
            \<longrightarrow> obs_aqi (full_ranking L xs ! j) \<le> obs_aqi (build_worst_aqi_rankings L n xs ! i)))
   \<and> distinct (map (city_key L) (full_ranking L xs))
   \<and> sorted_wrt (\<lambda>a b. b \<le> a) (map obs_aqi (full_ranking L xs))
   \<and> map rank (full_ranking L xs) = map Some [1 ..< Suc (length (full_ranking L xs))]
   \<and> (\<forall>x \<in> set xs. \<exists>obs \<in> set (full_ranking L xs).
         city_key L obs = city_key L x \<and> obs_aqi x \<le> obs_aqi obs)"
proof (intro conjI)
  show "distinct (map (city_key L) (build_worst_aqi_rankings L n xs))" by (rule rankings_distinct)
next
  show "\<forall>obs \<in> set (build_worst_aqi_rankings L n xs).
         (\<exists>x \<in> set xs. city obs = city x \<and> country obs = country x \<and> obs_aqi obs = obs_aqi x)
         \<and> (\<forall>x \<in> set xs. city_key L x = city_key L obs \<longrightarrow> obs_aqi x \<le> obs_aqi obs)"
  proof
    fix obs
    assume "obs \<in> set (build_worst_aqi_rankings L n xs)"
    then have "\<exists>y \<in> set (map snd (deduplicate L xs)). \<exists>r. obs = y\<lparr>rank := r\<rparr>"
      by (rule ranked_source)
    then obtain y r where y: "y \<in> set (map snd (deduplicate L xs))" and o: "obs = y\<lparr>rank := r\<rparr>"
      by (elim bexE exE)
    have "kept_worst L (deduplicate L xs) (set xs)" by (rule kept_worst_deduplicate)
    then have "y \<in> set xs
      \<and> (\<forall>x \<in> set xs. city_key L x = city_key L y \<longrightarrow> obs_aqi x \<le> obs_aqi y)"
      using y by (rule kept_worst_values)
    then have "y \<in> set xs"
      and "\<forall>x \<in> set xs. city_key L x = city_key L y \<longrightarrow> obs_aqi x \<le> obs_aqi y"
      by simp_all
    moreover from o have "city obs = city y" "country obs = country y" "obs_aqi obs = obs_aqi y"
      "city_key L obs = city_key L y"
      by (simp_all add: city_key_def)
    ultimately show "(\<exists>x \<in> set xs. city obs = city x \<and> country obs = country x
                        \<and> obs_aqi obs = obs_aqi x)
         \<and> (\<forall>x \<in> set xs. city_key L x = city_key L obs \<longrightarrow> obs_aqi x \<le> obs_aqi obs)"
      by auto
  qed
next
  show "int (length xs) \<le> n \<longrightarrow>
         (\<forall>x \<in> set xs. \<exists>obs \<in> set (build_worst_aqi_rankings L n xs).
            city_key L obs = city_key L x \<and> obs_aqi x \<le> obs_aqi obs)"
    using rankings_complete by blast
next
  show "\<forall>a b. city_key L a = city_key L b \<and> obs_aqi a = 80 \<and> obs_aqi b = 120 \<longrightarrow>
         build_worst_aqi_rankings L 30 [a, b] = [b\<lparr>rank := Some 1\<rparr>]
         \<and> build_worst_aqi_rankings L 30 [b, a] = [b\<lparr>rank := Some 1\<rparr>]"
  proof (intro allI impI)
    fix a b :: observation
    assume h: "city_key L a = city_key L b \<and> obs_aqi a = 80 \<and> obs_aqi b = 120"
    then have "city_key L a = city_key L b" and "obs_aqi a < obs_aqi b" by simp_all
    then show "build_worst_aqi_rankings L 30 [a, b] = [b\<lparr>rank := Some 1\<rparr>]
         \<and> build_worst_aqi_rankings L 30 [b, a] = [b\<lparr>rank := Some 1\<rparr>]"
      by (intro conjI rankings_same_key_pair)
  qed
next
  show "build_worst_aqi_rankings lower 30
         [station ''Delhi'' ''India'' 80, station ''DELHI'' ''india'' 120]
       = [\<lparr>city = ''DELHI'', country = ''india'', obs_aqi = 120, rank = Some 1\<rparr>]"
    by (simp add: build_worst_aqi_rankings_def deduplicate_def record_observation_def city_key_def
        station_def lower_def lower_char_def slice_to_def assign_ranks_def)
next
  show "sorted_wrt (\<lambda>a b. b \<le> a) (map obs_aqi (build_worst_aqi_rankings L n xs))"
    by (rule rankings_sorted)
next
  show "map rank (build_worst_aqi_rankings L n xs)
       = map Some [1 ..< Suc (length (build_worst_aqi_rankings L n xs))]"
    by (rule rankings_ranks)
next
  show "0 \<le> n \<longrightarrow> length (build_worst_aqi_rankings L n xs) \<le> nat n"
    using rankings_length by blast
next
  show "build_worst_aqi_rankings L n xs = slice_to n (full_ranking L xs)" by (rule rankings_cut)
next
  show "0 \<le> n \<longrightarrow> build_worst_aqi_rankings L n xs = take (nat n) (full_ranking L xs)"
    by (simp add: rankings_cut slice_to_def)
next
  show "0 \<le> n \<longrightarrow>
         (\<forall>i j. i < length (build_worst_aqi_rankings L n xs)
                \<and> length (build_worst_aqi_rankings L n xs) \<le> j \<and> j < length (full_ranking L xs)
            \<longrightarrow> obs_aqi (full_ranking L xs ! j) \<le> obs_aqi (build_worst_aqi_rankings L n xs ! i))"
    using rankings_cut_off by blast
next
  show "distinct (map (city_key L) (full_ranking L xs))"
    unfolding full_ranking_uncut by (rule rankings_distinct)
next
  show "sorted_wrt (\<lambda>a b. b \<le> a) (map obs_aqi (full_ranking L xs))"
    unfolding full_ranking_uncut by (rule rankings_sorted)
next
  show "map rank (full_ranking L xs) = map Some [1 ..< Suc (length (full_ranking L xs))]"
    unfolding full_ranking_uncut by (rule rankings_ranks)
next
  show "\<forall>x \<in> set xs. \<exists>obs \<in> set (full_ranking L xs).
         city_key L obs = city_key L x \<and> obs_aqi x \<le> obs_aqi obs"
    unfolding full_ranking_uncut
  proof
    fix x
    assume x: "x \<in> set xs"
    have "int (length xs) \<le> int (length xs)" by simp
    then show "\<exists>obs \<in> set (build_worst_aqi_rankings L (int (length xs)) xs).
                 city_key L obs = city_key L x \<and> obs_aqi x \<le> obs_aqi obs"
      using x by (rule rankings_complete)
  qed
qed

text \<open>
  The hypotheses of C4 at four station observations of ASCII names with \<open>top_n = 30\<close> and
  \<open>top_n = 2\<close>: the whole ranking has three entries, and \<open>top_n = 2\<close> returns the first two
  and cuts off Lahore with the index 90.
\<close>

theorem rankings_worst_per_city_witness:
  "build_worst_aqi_rankings lower 30 four_stations
   = [\<lparr>city = ''DELHI'', country = ''india'', obs_aqi = 120, rank = Some 1\<rparr>,
      \<lparr>city = ''Dhaka'', country = ''Bangladesh'', obs_aqi = 120, rank = Some 2\<rparr>,
      \<lparr>city = ''Lahore'', country = ''Pakistan'', obs_aqi = 90, rank = Some 3\<rparr>]
   \<and> int (length four_stations) \<le> 30
   \<and> distinct (map (city_key lower) (build_worst_aqi_rankings lower 30 four_stations))
   \<and> map rank (build_worst_aqi_rankings lower 30 four_stations) = [Some 1, Some 2, Some 3]
   \<and> (0::int) \<le> 2
   \<and> length (build_worst_aqi_rankings lower 2 four_stations) \<le> 2
   \<and> full_ranking lower four_stations = build_worst_aqi_rankings lower 30 four_stations
   \<and> build_worst_aqi_rankings lower 2 four_stations
       = [\<lparr>city = ''DELHI'', country = ''india'', obs_aqi = 120, rank = Some 1\<rparr>,
          \<lparr>city = ''Dhaka'', country = ''Bangladesh'', obs_aqi = 120, rank = Some 2\<rparr>]
   \<and> city_key lower (station ''Delhi'' ''India'' 80) = city_key lower (station ''DELHI'' ''india'' 120)
   \<and> build_worst_aqi_rankings lower 30
         [station ''DELHI'' ''india'' 120, station ''Delhi'' ''India'' 80]
       = [\<lparr>city = ''DELHI'', country = ''india'', obs_aqi = 120, rank = Some 1\<rparr>]"
proof -
  have e: "build_worst_aqi_rankings lower 30 four_stations
   = [\<lparr>city = ''DELHI'', country = ''india'', obs_aqi = 120, rank = Some 1\<rparr>,
      \<lparr>city = ''Dhaka'', country = ''Bangladesh'', obs_aqi = 120, rank = Some 2\<rparr>,
      \<lparr>city = ''Lahore'', country = ''Pakistan'', obs_aqi = 90, rank = Some 3\<rparr>]"
    by code_simp
  have f: "full_ranking lower four_stations = build_worst_aqi_rankings lower 30 four_stations"
    by code_simp
  have l: "int (length four_stations) \<le> 30" by (simp add: four_stations_def)
  have n: "(0::int) \<le> 2" by simp
  have k: "city_key lower (station ''Delhi'' ''India'' 80)
             = city_key lower (station ''DELHI'' ''india'' 120)"
    by (simp add: city_key_def station_def lower_def lower_char_def)
  have v: "obs_aqi (station ''Delhi'' ''India'' 80) = 80"
    "obs_aqi (station ''DELHI'' ''india'' 120) = 120"
    by (simp_all add: station_def)
  note t = rankings_worst_per_city[of lower 30 four_stations]
  from t have d: "distinct (map (city_key lower) (build_worst_aqi_rankings lower 30 four_stations))"
    by (elim conjE)
  from t have "map rank (build_worst_aqi_rankings lower 30 four_stations)
       = map Some [1 ..< Suc (length (build_worst_aqi_rankings lower 30 four_stations))]"
    by (elim conjE)
  then have r: "map rank (build_worst_aqi_rankings lower 30 four_stations) = [Some 1, Some 2, Some 3]"
    by (simp add: e upt_rec)
  note t2 = rankings_worst_per_city[of lower 2 four_stations]
  from t2
  have "(0::int) \<le> 2 \<longrightarrow> length (build_worst_aqi_rankings lower 2 four_stations) \<le> nat 2"
    by (elim conjE)
  with n have "length (build_worst_aqi_rankings lower 2 four_stations) \<le> nat 2" by (rule rev_mp)
  then have c: "length (build_worst_aqi_rankings lower 2 four_stations) \<le> 2" by simp
  from t2
  have "(0::int) \<le> 2 \<longrightarrow> build_worst_aqi_rankings lower 2 four_stations
          = take (nat 2) (full_ranking lower four_stations)"
    by (elim conjE)
  with n have "build_worst_aqi_rankings lower 2 four_stations
          = take (nat 2) (full_ranking lower four_stations)" by (rule rev_mp)
  then have c2: "build_worst_aqi_rankings lower 2 four_stations
       = [\<lparr>city = ''DELHI'', country = ''india'', obs_aqi = 120, rank = Some 1\<rparr>,
          \<lparr>city = ''Dhaka'', country = ''Bangladesh'', obs_aqi = 120, rank = Some 2\<rparr>]"
    by (simp add: f e)
  from t have "\<forall>a b. city_key lower a = city_key lower b \<and> obs_aqi a = 80 \<and> obs_aqi b = 120 \<longrightarrow>
         build_worst_aqi_rankings lower 30 [a, b] = [b\<lparr>rank := Some 1\<rparr>]
         \<and> build_worst_aqi_rankings lower 30 [b, a] = [b\<lparr>rank := Some 1\<rparr>]"
    by (elim conjE)
  then have "city_key lower (station ''Delhi'' ''India'' 80)
               = city_key lower (station ''DELHI'' ''india'' 120)
             \<and> obs_aqi (station ''Delhi'' ''India'' 80) = 80
             \<and> obs_aqi (station ''DELHI'' ''india'' 120) = 120 \<longrightarrow>
         build_worst_aqi_rankings lower 30
             [station ''Delhi'' ''India'' 80, station ''DELHI'' ''india'' 120]
           = [(station ''DELHI'' ''india'' 120)\<lparr>rank := Some 1\<rparr>]
         \<and> build_worst_aqi_rankings lower 30
             [station ''DELHI'' ''india'' 120, station ''Delhi'' ''India'' 80]
           = [(station ''DELHI'' ''india'' 120)\<lparr>rank := Some 1\<rparr>]"
    by (elim allE)
  with k v have "build_worst_aqi_rankings lower 30
             [station ''DELHI'' ''india'' 120, station ''Delhi'' ''India'' 80]
           = [(station ''DELHI'' ''india'' 120)\<lparr>rank := Some 1\<rparr>]"
    by simp
  then have p: "build_worst_aqi_rankings lower 30
         [station ''DELHI'' ''india'' 120, station ''Delhi'' ''India'' 80]
       = [\<lparr>city = ''DELHI'', country = ''india'', obs_aqi = 120, rank = Some 1\<rparr>]"
    by (simp add: station_def)
  from e l d r n c f c2 k p show ?thesis by (intro conjI)
qed

text \<open>
  Claim C4 as stated asks for a strictly descending list.  Two different cities with the
  same index 120 are both returned, so the list of indices is \<open>[120, 120]\<close>.
\<close>

theorem rankings_not_strictly_descending_counterexample:
  "map obs_aqi (build_worst_aqi_rankings lower 30
      [station ''Delhi'' ''India'' 120, station ''Dhaka'' ''Bangladesh'' 120]) = [120, 120]
   \<and> \<not> sorted_wrt (\<lambda>a b. b < a) (map obs_aqi (build_worst_aqi_rankings lower 30
      [station ''Delhi'' ''India'' 120, station ''Dhaka'' ''Bangladesh'' 120]))"
proof -
  have "map obs_aqi (build_worst_aqi_rankings lower 30
      [station ''Delhi'' ''India'' 120, station ''Dhaka'' ''Bangladesh'' 120]) = [120, 120]"
    by code_simp
  then show ?thesis by simp
qed

section \<open>Properties of fetch_batch_current_aqi\<close>

lemma chunk_results_length: "length (chunk_results n r) = n"
  by (cases r) (auto simp: Let_def split: option.split)

lemma all_results_done:
  "length locs \<le> s \<Longrightarrow> all_results request s locs = []"
  by (subst all_results.simps) simp

lemma all_results_length:
  "length (all_results request s locs) = length locs - s"
proof (induction request s locs rule: all_results.induct)
  case (1 request chunk_start locations)
  show ?case
  proof (cases "length locations \<le> chunk_start")
    case True
    then show ?thesis by (simp add: all_results_done)
  next
    case False
    let ?e = "min (chunk_start + BATCH_CHUNK_SIZE) (length locations)"
    let ?c = "take (?e - chunk_start) (drop chunk_start locations)"
    have ih: "length (all_results request (chunk_start + BATCH_CHUNK_SIZE) locations)
                = length locations - (chunk_start + BATCH_CHUNK_SIZE)"
      using "1.IH"[OF False refl refl] .
    have "length ?c = ?e - chunk_start" by auto
    with False ih show ?thesis
      by (subst all_results.simps) (simp add: Let_def chunk_results_length)
  qed
qed

section \<open>Claims about fetch_batch_current_aqi\<close>

text \<open>
  Claim C5.  For every list of locations and every behaviour of the provider,
  \<open>fetch_batch_current_aqi\<close> returns the entries of \<open>all_results\<close> that are not \<open>None\<close>:
  no placeholder survives the final filter.  \<open>all_results\<close> has one entry per input
  location, so the returned list is at most as long as the input, and an empty input gives
  an empty list.  The positions of the input are not kept: when the formatting fails for the
  first of three locations, the entry at position 0 of the returned list is the result of
  the second location.
\<close>

theorem fetch_batch_only_present:
  "None \<notin> set (fetch_batch_current_aqi request locations)
   \<and> length (fetch_batch_current_aqi request locations) \<le> length locations
   \<and> fetch_batch_current_aqi request [] = []
   \<and> length (all_results request 0 locations) = length locations
   \<and> fetch_batch_current_aqi request locations
       = filter (\<lambda>r. r \<noteq> None) (all_results request 0 locations)
   \<and> all_results first_fails 0 three_locations ! 0 = None
   \<and> all_results first_fails 0 three_locations ! 1 = Some (result_with 45)
   \<and> fetch_batch_current_aqi first_fails three_locations ! 0 = Some (result_with 45)"
proof (intro conjI)
  show "None \<notin> set (fetch_batch_current_aqi request locations)"
    by (simp add: fetch_batch_current_aqi_def)
next
  have "length (filter (\<lambda>r. r \<noteq> None) (all_results request 0 locations))
          \<le> length (all_results request 0 locations)"
    by (rule length_filter_le)
  then show "length (fetch_batch_current_aqi request locations) \<le> length locations"
    by (simp add: fetch_batch_current_aqi_def all_results_length)
next
  show "fetch_batch_current_aqi request [] = []"
    by (simp add: fetch_batch_current_aqi_def)
next
  show "length (all_results request 0 locations) = length locations"
    by (simp add: all_results_length)
next
  show "fetch_batch_current_aqi request locations
       = filter (\<lambda>r. r \<noteq> None) (all_results request 0 locations)"
    by (simp add: fetch_batch_current_aqi_def all_results_done)
next
  have a: "all_results first_fails 0 three_locations
             = [None, Some (result_with 45), Some (result_with 155)]"
    by (simp add: all_results.simps first_fails_def three_locations_def BATCH_CHUNK_SIZE_def)
  then show "all_results first_fails 0 three_locations ! 0 = None"
    and "all_results first_fails 0 three_locations ! 1 = Some (result_with 45)"
    by simp_all
  from a show "fetch_batch_current_aqi first_fails three_locations ! 0 = Some (result_with 45)"
    by (simp add: fetch_batch_current_aqi_def three_locations_def)
qed


text \<open>Claim C5 at the three locations whose first result is missing: two results remain.\<close>

theorem fetch_batch_only_present_witness:
  "None \<notin> set (fetch_batch_current_aqi first_fails three_locations)
   \<and> length (fetch_batch_current_aqi first_fails three_locations) \<le> length three_locations
   \<and> fetch_batch_current_aqi first_fails three_locations
       = [Some (result_with 45), Some (result_with 155)]"
proof -
  have "all_results first_fails 0 three_locations
             = [None, Some (result_with 45), Some (result_with 155)]"
    by (simp add: all_results.simps first_fails_def three_locations_def BATCH_CHUNK_SIZE_def)
  with fetch_batch_only_present[of first_fails three_locations] show ?thesis
    by simp
qed

section \<open>Properties of the password-reset code\<close>


lemma valid_iff:
  "is_password_reset_token_valid u now t \<longleftrightarrow>
     (\<exists>s e. password_reset_token u = Some s \<and> s \<noteq> [] \<and> password_reset_expires u = Some e
            \<and> s = t \<and> now \<le> e)"
  by (cases "password_reset_token u"; cases "password_reset_expires u")
     (auto simp: is_password_reset_token_valid_def truthy_str_def)

lemma generated_valid_iff:
  "tok \<noteq> [] \<Longrightarrow>
     is_password_reset_token_valid (generate_password_reset_token tok now u) now' tok
       \<longleftrightarrow> now' \<le> now + 3600"
  by (simp add: valid_iff generate_password_reset_token_def one_hour_def)

lemma objects_get_Inr:
  "objects_get P rows = Inr r \<Longrightarrow> filter P rows = [r]"
  by (auto simp: objects_get_def split: list.splits)

lemma reset_success:
  assumes "reset_password_post v now users tok pw = (users', r)" and "status r = 200"
  shows "\<exists>u. filter (\<lambda>u. password_reset_token u = Some tok) users = [u]
             \<and> users' = save_user (clear_password_reset_token (u\<lparr>password := pw\<rparr>)) users"
  using assms
  by (auto simp: reset_password_post_def split: if_splits sum.splits py_error.splits
        dest: objects_get_Inr)

lemma token_gone:
  assumes f: "filter (\<lambda>u. password_reset_token u = Some tok) users = [u]"
  shows "filter (\<lambda>u. password_reset_token u = Some tok)
           (save_user (clear_password_reset_token (u\<lparr>password := pw\<rparr>)) users) = []"
proof -
  have "\<forall>w \<in> set users. password_reset_token w = Some tok \<longrightarrow> w = u"
  proof (intro ballI impI)
    fix w assume "w \<in> set users" "password_reset_token w = Some tok"
    then have "w \<in> set (filter (\<lambda>u. password_reset_token u = Some tok) users)" by simp
    with f show "w = u" by simp
  qed
  then show ?thesis
    by (auto simp: save_user_def clear_password_reset_token_def filter_empty_conv)
qed

section \<open>Claims about the password-reset token\<close>

text \<open>
  Claim C7.  \<open>is_password_reset_token_valid\<close> holds exactly when a non-empty token and an
  expiry are stored, the presented token equals the stored one, and the clock is not past
  the expiry.  \<open>generate_password_reset_token\<close> sets the expiry one hour after the time of
  issue, so a token just generated is valid and the same token is invalid once more than one
  hour has passed.  After a reset that answered 200 no user carries the token any more, and
  presenting the same token again (in a request the serializer accepts) is answered 400 with
  the invalid-token message.
\<close>

theorem reset_token_single_use:
  "(\<forall>u now t. is_password_reset_token_valid u now t \<longleftrightarrow>
       (\<exists>s e. password_reset_token u = Some s \<and> s \<noteq> [] \<and> password_reset_expires u = Some e
              \<and> s = t \<and> now \<le> e))
   \<and> (\<forall>tok now u. password_reset_expires (generate_password_reset_token tok now u)
                      = Some (now + 3600))
   \<and> (\<forall>tok now u. tok \<noteq> [] \<longrightarrow>
          is_password_reset_token_valid (generate_password_reset_token tok now u) now tok)
   \<and> (\<forall>tok now now' u. tok \<noteq> [] \<and> now + 3600 < now' \<longrightarrow>
          \<not> is_password_reset_token_valid (generate_password_reset_token tok now u) now' tok)
   \<and> (\<forall>v now now' users users' r tok pw pw'.
          reset_password_post v now users tok pw = (users', r) \<and> status r = 200 \<and> v tok pw' \<longrightarrow>
            (\<forall>u \<in> set users'. password_reset_token u \<noteq> Some tok)
            \<and> reset_password_post v now' users' tok pw'
                = (users', \<lparr>status = 400, body = ErrorDetail ''Invalid password reset token.''\<rparr>))"
proof (intro conjI allI impI)
  fix u now t
  show "is_password_reset_token_valid u now t \<longleftrightarrow>
       (\<exists>s e. password_reset_token u = Some s \<and> s \<noteq> [] \<and> password_reset_expires u = Some e
              \<and> s = t \<and> now \<le> e)"
    by (rule valid_iff)
next
  fix tok and now :: int and u
  show "password_reset_expires (generate_password_reset_token tok now u) = Some (now + 3600)"
    by (simp add: generate_password_reset_token_def one_hour_def)
next
  fix tok :: string and now :: int and u
  assume "tok \<noteq> []"
  then show "is_password_reset_token_valid (generate_password_reset_token tok now u) now tok"
    by (simp add: generated_valid_iff)
next
  fix tok :: string and now now' :: int and u
  assume "tok \<noteq> [] \<and> now + 3600 < now'"
  then show "\<not> is_password_reset_token_valid (generate_password_reset_token tok now u) now' tok"
    by (simp add: generated_valid_iff)
next
  fix v now now' users users' r tok pw pw'
  assume a: "reset_password_post v now users tok pw = (users', r) \<and> status r = 200 \<and> v tok pw'"
  then obtain u where u: "filter (\<lambda>u. password_reset_token u = Some tok) users = [u]"
    and s: "users' = save_user (clear_password_reset_token (u\<lparr>password := pw\<rparr>)) users"
    using reset_success by blast
  from u have g: "filter (\<lambda>u. password_reset_token u = Some tok) users' = []"
    unfolding s by (rule token_gone)
  then show "\<forall>u \<in> set users'. password_reset_token u \<noteq> Some tok"
    by (simp add: filter_empty_conv)
  from g a show "reset_password_post v now' users' tok pw'
                = (users', \<lparr>status = 400, body = ErrorDetail ''Invalid password reset token.''\<rparr>)"
    by (simp add: reset_password_post_def objects_get_def)
qed

text \<open>
  The hypotheses of C7 at the user \<open>alice\<close> with the token \<open>tok\<close> issued at time 0: a
  reset at time 10 succeeds, the same token at time 20 is refused.
\<close>

theorem reset_token_single_use_witness:
  "is_password_reset_token_valid (generate_password_reset_token ''tok'' 0 alice) 0 ''tok''
   \<and> \<not> is_password_reset_token_valid (generate_password_reset_token ''tok'' 0 alice) 3601 ''tok''
   \<and> reset_password_post accept_all 10 [generate_password_reset_token ''tok'' 0 alice] ''tok'' ''new''
       = ([alice\<lparr>password := ''new''\<rparr>],
          \<lparr>status = 200, body = Detail ''Password successfully reset.''\<rparr>)
   \<and> reset_password_post accept_all 20 [alice\<lparr>password := ''new''\<rparr>] ''tok'' ''newer''
       = ([alice\<lparr>password := ''new''\<rparr>],
          \<lparr>status = 400, body = ErrorDetail ''Invalid password reset token.''\<rparr>)"
proof -
  note t = reset_token_single_use
  have ne: "''tok'' \<noteq> []" by simp
  from t have a0: "\<forall>tok now u. tok \<noteq> [] \<longrightarrow>
          is_password_reset_token_valid (generate_password_reset_token tok now u) now tok"
    by (elim conjE)
  have a: "is_password_reset_token_valid (generate_password_reset_token ''tok'' 0 alice) 0 ''tok''"
    using a0[rule_format, OF ne] .
  have lt: "''tok'' \<noteq> [] \<and> (0::int) + 3600 < 3601" by simp
  from t have b0: "\<forall>tok now now' u. tok \<noteq> [] \<and> now + 3600 < now' \<longrightarrow>
          \<not> is_password_reset_token_valid (generate_password_reset_token tok now u) now' tok"
    by (elim conjE)
  have b: "\<not> is_password_reset_token_valid (generate_password_reset_token ''tok'' 0 alice) 3601 ''tok''"
    using b0[rule_format, OF lt] .
  have r: "reset_password_post accept_all 10 [generate_password_reset_token ''tok'' 0 alice] ''tok'' ''new''
       = ([alice\<lparr>password := ''new''\<rparr>],
          \<lparr>status = 200, body = Detail ''Password successfully reset.''\<rparr>)"
    by (simp add: reset_password_post_def accept_all_def objects_get_def
        generate_password_reset_token_def is_password_reset_token_valid_def truthy_str_def
        one_hour_def save_user_def clear_password_reset_token_def alice_def)
  have h: "reset_password_post accept_all 10 [generate_password_reset_token ''tok'' 0 alice] ''tok'' ''new''
       = ([alice\<lparr>password := ''new''\<rparr>],
          \<lparr>status = 200, body = Detail ''Password successfully reset.''\<rparr>)
     \<and> status \<lparr>status = 200, body = Detail ''Password successfully reset.''\<rparr> = 200
     \<and> accept_all ''tok'' ''newer''"
    using r by (simp add: accept_all_def)
  from t have c: "\<forall>v now now' users users' r tok pw pw'.
          reset_password_post v now users tok pw = (users', r) \<and> status r = 200 \<and> v tok pw' \<longrightarrow>
            (\<forall>u \<in> set users'. password_reset_token u \<noteq> Some tok)
            \<and> reset_password_post v now' users' tok pw'
                = (users', \<lparr>status = 400, body = ErrorDetail ''Invalid password reset token.''\<rparr>)"
    by (elim conjE)
  have "reset_password_post accept_all 20 [alice\<lparr>password := ''new''\<rparr>] ''tok'' ''newer''
       = ([alice\<lparr>password := ''new''\<rparr>],
          \<lparr>status = 400, body = ErrorDetail ''Invalid password reset token.''\<rparr>)"
    using c[rule_format, OF h, of 20] by (rule conjunct2)
  with a b r show ?thesis by (intro conjI)
qed

lemma objects_get_unique:
  assumes "distinct (map f rows)" and "k \<in> set (map f rows)"
  shows "\<exists>r. objects_get (\<lambda>u. f u = k) rows = Inr r"
proof -
  from assms have "length (filter (\<lambda>u. f u = k) rows) = 1"
  proof (induction rows)
    case Nil
    then show ?case by simp
  next
    case (Cons a rows)
    show ?case
    proof (cases "f a = k")
      case True
      with Cons.prems have "k \<notin> f ` set rows" by auto
      then have "filter (\<lambda>u. f u = k) rows = []" by (auto simp: filter_empty_conv)
      with True show ?thesis by simp
    next
      case False
      with Cons show ?thesis by auto
    qed
  qed
  then obtain r where "filter (\<lambda>u. f u = k) rows = [r]"
    by (cases "filter (\<lambda>u. f u = k) rows") auto
  then show ?thesis by (simp add: objects_get_def)
qed

lemma objects_get_missing:
  assumes "k \<notin> set (map f rows)"
  shows "objects_get (\<lambda>u. f u = k) rows = Inl DoesNotExist"
proof -
  from assms have "filter (\<lambda>u. f u = k) rows = []" by (auto simp: filter_empty_conv)
  then show ?thesis by (simp add: objects_get_def)
qed

section \<open>Claims about the forgot-password endpoint\<close>

text \<open>
  Claim C8.  With the addresses of the table pairwise different (the column is unique), a
  request whose address belongs to a user and a request whose address belongs to no user,
  both accepted by the serializer, get the same response: status 200 and the generic
  message "If the email exists, a password reset email has been sent."
\<close>

theorem forgot_password_uniform:
  assumes "distinct (map email users)"
    and "is_valid known" and "is_valid unknown"
    and "known \<in> set (map email users)" and "unknown \<notin> set (map email users)"
  shows "snd (snd (forgot_password_post is_valid token now users known))
           = snd (snd (forgot_password_post is_valid token' now' users unknown))
         \<and> snd (snd (forgot_password_post is_valid token now users known))
           = \<lparr>status = 200,
              body = Detail ''If the email exists, a password reset email has been sent.''\<rparr>"
proof -
  from assms(1,4) obtain u where "objects_get (\<lambda>u. email u = known) users = Inr u"
    using objects_get_unique[of email users known] by blast
  with assms(2) have "snd (snd (forgot_password_post is_valid token now users known))
           = \<lparr>status = 200,
              body = Detail ''If the email exists, a password reset email has been sent.''\<rparr>"
    by (simp add: forgot_password_post_def Let_def)
  moreover from assms(5) have "objects_get (\<lambda>u. email u = unknown) users = Inl DoesNotExist"
    by (rule objects_get_missing)
  with assms(3) have "snd (snd (forgot_password_post is_valid token' now' users unknown))
           = \<lparr>status = 200,
              body = Detail ''If the email exists, a password reset email has been sent.''\<rparr>"
    by (simp add: forgot_password_post_def)
  ultimately show ?thesis by simp
qed

text \<open>
  The hypotheses of C8 at the table with the one user \<open>alice\<close>: her address and an
  unknown address get the same response; only the first request sends a mail.
\<close>

theorem forgot_password_uniform_witness:
  "distinct (map email [alice]) \<and> accept_address ''alice@example.com''
   \<and> accept_address ''bob@example.com''
   \<and> ''alice@example.com'' \<in> set (map email [alice])
   \<and> ''bob@example.com'' \<notin> set (map email [alice])
   \<and> snd (snd (forgot_password_post accept_address ''t1'' 0 [alice] ''alice@example.com''))
       = snd (snd (forgot_password_post accept_address ''t2'' 5 [alice] ''bob@example.com''))
   \<and> fst (snd (forgot_password_post accept_address ''t1'' 0 [alice] ''alice@example.com''))
       = [generate_password_reset_token ''t1'' 0 alice]
   \<and> fst (snd (forgot_password_post accept_address ''t2'' 5 [alice] ''bob@example.com'')) = []"
proof -
  have h: "distinct (map email [alice])" "accept_address ''alice@example.com''"
    "accept_address ''bob@example.com''" "''alice@example.com'' \<in> set (map email [alice])"
    "''bob@example.com'' \<notin> set (map email [alice])"
    by (simp_all add: alice_def accept_address_def)
  have m: "fst (snd (forgot_password_post accept_address ''t1'' 0 [alice] ''alice@example.com''))
       = [generate_password_reset_token ''t1'' 0 alice]"
    "fst (snd (forgot_password_post accept_address ''t2'' 5 [alice] ''bob@example.com'')) = []"
    by (simp_all add: forgot_password_post_def accept_address_def objects_get_def alice_def Let_def)
  from forgot_password_uniform[OF h, of "''t1''" 0 "''t2''" 5] h m show ?thesis by simp
qed

section \<open>Properties of the alert sweep\<close>


lemma result_with_eq:
  "result_with v =
     with_info (if v \<noteq> 0 then get_aqi_category (Some v) else unknown_info) (Some v)
       (Some ''us_aqi'') (Some ''pm2_5'')"
  by (simp add: result_with_def readings_with_def format_current_response_def resolve_aqi_def
      pollutant_aqis_def sub_index_entry_def dominant_of_def max_present_def
      List.map_filter_simps truthy_int_def truthy_def epa_pm25_12)

lemma aqi_result_with: "aqi (result_with v) = Some v"
  by (simp add: result_with_eq with_info_def)

lemma dominant_result_with: "dominant_pollutant (result_with v) = Some ''pm2_5''"
  by (simp add: result_with_eq with_info_def)

lemma round4_of_int:
  assumes "\<bar>k\<bar> < 2 ^ 53"
  shows "round4 (of_int k) = of_int k"
proof -
  have d: "double (of_int k) = of_int k" using assms by (rule double_of_int)
  have "of_int k * (10000::rat) = of_int (k * 10000)" by simp
  then have "py_round (of_int k * 10000) = k * 10000"
    by (simp only: py_round_of_int)
  then show ?thesis by (simp add: round4_def d)
qed

lemma round4_of_nat: "i < 2 ^ 53 \<Longrightarrow> round4 (of_nat i) = of_nat i"
  using round4_of_int[of "int i"] by simp

lemma group_append_new:
  "key \<notin> fst ` set gs \<Longrightarrow> group_append key pair gs = gs @ [(key, [pair])]"
  by (induction gs) auto

lemma location_groups_subscribers:
  "n \<le> 2 ^ 53 \<Longrightarrow> location_groups (map subscriber [0 ..< n]) = map lone_group [0 ..< n]"
proof (induction n)
  case 0
  show ?case by (simp add: location_groups_def)
next
  case (Suc n)
  then have n: "n < 2 ^ 53" and ih: "location_groups (map subscriber [0 ..< n]) = map lone_group [0 ..< n]"
    by simp_all
  have k: "(of_nat n :: rat, 0 :: rat) \<notin> fst ` set (map lone_group [0 ..< n])"
    by (auto simp: lone_group_def)
  have z: "round4 0 = 0" using round4_of_nat[of 0] by simp
  have "location_groups (map subscriber [0 ..< Suc n])
          = group_step (location_groups (map subscriber [0 ..< n])) (subscriber n)"
    by (simp add: location_groups_def)
  also have "\<dots> = group_append (of_nat n, 0) (sub_user (subscriber n), subscriber n)
                     (map lone_group [0 ..< n])"
    by (simp add: ih group_step_def subscriber_def round4_of_nat[OF n] z)
  also have "\<dots> = map lone_group [0 ..< n] @ [lone_group n]"
    using k by (simp add: group_append_new lone_group_def)
  finally show ?case by simp
qed

lemma active_subscribers:
  "filter sub_is_active (map subscriber [0 ..< n]) = map subscriber [0 ..< n]"
  by (induction n) (simp_all add: subscriber_def)

lemma unique_locations_lone:
  "unique_locations (map lone_group [0 ..< n]) = map spot [0 ..< n]"
  by (simp add: unique_locations_def lone_group_def spot_def)

lemma chunk_results_full:
  "length rs = n \<Longrightarrow> chunk_results n (BatchArrays rs) = rs"
  by simp

lemma all_results_forty_one:
  "all_results first_chunk_fails 0 (map spot [0 ..< 41])
     = replicate 20 None @ replicate 20 (Some (result_with 45)) @ [Some (result_with 155)]"
proof -
  let ?locs = "map spot [0 ..< 41]"
  have l: "length ?locs = 41" by simp
  have c0: "all_results first_chunk_fails 0 ?locs
              = replicate 20 None @ all_results first_chunk_fails 20 ?locs"
    by (subst all_results.simps)
       (simp add: BATCH_CHUNK_SIZE_def first_chunk_fails_def Let_def del: upt_Suc map_map)
  have c1: "all_results first_chunk_fails 20 ?locs
              = replicate 20 (Some (result_with 45)) @ all_results first_chunk_fails 40 ?locs"
    by (subst all_results.simps)
       (simp add: BATCH_CHUNK_SIZE_def first_chunk_fails_def Let_def map_replicate_const
          del: upt_Suc)
  have c2: "all_results first_chunk_fails 40 ?locs
              = [Some (result_with 155)] @ all_results first_chunk_fails 60 ?locs"
    by (subst all_results.simps)
       (simp add: BATCH_CHUNK_SIZE_def first_chunk_fails_def Let_def map_replicate_const
          del: upt_Suc)
  have c3: "all_results first_chunk_fails 60 ?locs = []"
    by (subst all_results.simps) simp
  show ?thesis by (simp only: c0 c1 c2 c3 append_Nil2)
qed

lemma map_of_zip_from:
  fixes vs :: "'v list"
  shows "k \<le> i \<Longrightarrow>
     map_of (zip (map (\<lambda>j. (of_nat j :: rat, 0 :: rat)) [k ..< n]) vs) (of_nat i, 0)
       = (if i < n \<and> i - k < length vs then Some (vs ! (i - k)) else None)"
proof (induction vs arbitrary: k)
  case Nil
  show ?case by simp
next
  case (Cons v vs)
  show ?case
  proof (cases "k < n")
    case False
    with Cons.prems show ?thesis by simp
  next
    case True
    then have u: "[k ..< n] = k # [Suc k ..< n]" by (rule upt_conv_Cons)
    show ?thesis
    proof (cases "i = k")
      case True
      with \<open>k < n\<close> show ?thesis by (simp add: u)
    next
      case False
      with Cons.prems have "Suc k \<le> i" by simp
      then have "map_of (zip (map (\<lambda>j. (of_nat j :: rat, 0 :: rat)) [Suc k ..< n]) vs) (of_nat i, 0)
         = (if i < n \<and> i - Suc k < length vs then Some (vs ! (i - Suc k)) else None)"
        by (rule Cons.IH)
      moreover from \<open>Suc k \<le> i\<close> have "i - k = Suc (i - Suc k)" by simp
      ultimately show ?thesis using False by (simp add: u)
    qed
  qed
qed

lemma foldl_unchanged: "(\<And>x. x \<in> set xs \<Longrightarrow> f s x = s) \<Longrightarrow> foldl f s xs = s"
  by (induction xs) simp_all

lemma keys_lone: "map fst (map lone_group [0 ..< n]) = map (\<lambda>j. (of_nat j :: rat, 0 :: rat)) [0 ..< n]"
  by (simp add: lone_group_def)

lemma lookup_forty_one:
  "map_of (zip (map fst (map lone_group [0 ..< 41])) batch_of_twenty_one) (fst (lone_group i))
     = (if i < 20 then Some (Some (result_with 45))
        else if i = 20 then Some (Some (result_with 155)) else None)"
proof -
  have "map_of (zip (map (\<lambda>j. (of_nat j :: rat, 0 :: rat)) [0 ..< 41]) batch_of_twenty_one)
          (of_nat i, 0)
        = (if i < 41 \<and> i - 0 < length batch_of_twenty_one
           then Some (batch_of_twenty_one ! (i - 0)) else None)"
    by (rule map_of_zip_from) simp
  then show ?thesis
    by (simp only: keys_lone) (auto simp: lone_group_def batch_of_twenty_one_def nth_append)
qed

lemma group_below:
  "i < 20 \<Longrightarrow>
     process_group send_mail today (zip (map fst (map lone_group [0 ..< 41])) batch_of_twenty_one) st
       (lone_group i) = st"
  unfolding process_group_def lookup_forty_one
  by (simp add: aqi_result_with AQI_THRESHOLD_def)

lemma group_missing:
  "20 < i \<Longrightarrow>
     process_group send_mail today (zip (map fst (map lone_group [0 ..< 41])) batch_of_twenty_one) st
       (lone_group i) = st"
  unfolding process_group_def lookup_forty_one by simp

lemma group_twenty:
  "\<not> aborted st \<Longrightarrow>
     process_group send_mail today (zip (map fst (map lone_group [0 ..< 41])) batch_of_twenty_one) st
       (lone_group 20)
     = process_pair send_mail today 155 (result_with 155) st
         (sub_user (subscriber 20), subscriber 20)"
  unfolding process_group_def lookup_forty_one
  by (simp add: aqi_result_with AQI_THRESHOLD_def lone_group_def)

lemma groups_forty_one:
  "\<not> aborted st \<Longrightarrow>
     foldl (process_group send_mail today
              (zip (map fst (map lone_group [0 ..< 41])) batch_of_twenty_one))
       st (map lone_group [0 ..< 41])
     = process_pair send_mail today 155 (result_with 155) st
         (sub_user (subscriber 20), subscriber 20)"
proof -
  assume na: "\<not> aborted st"
  let ?f = "process_group send_mail today
              (zip (map fst (map lone_group [0 ..< 41])) batch_of_twenty_one)"
  let ?st = "process_pair send_mail today 155 (result_with 155) st
               (sub_user (subscriber 20), subscriber 20)"
  have split: "[0 ..< 41] = [0 ..< 20] @ 20 # [21 ..< 41]"
    using upt_add_eq_append[of 0 20 21] upt_conv_Cons[of 20 41] by simp
  have a: "foldl ?f st (map lone_group [0 ..< 20]) = st"
  proof (rule foldl_unchanged)
    fix x assume "x \<in> set (map lone_group [0 ..< 20])"
    then have "x \<in> lone_group ` {0 ..< 20}" by (simp only: set_map set_upt)
    then obtain i where "i \<in> {0 ..< 20}" and "x = lone_group i" by blast
    then have "i < 20" "x = lone_group i" by simp_all
    then show "?f st x = st" by (simp only: group_below)
  qed
  have b: "?f st (lone_group 20) = ?st" using na by (rule group_twenty)
  have c: "foldl ?f ?st (map lone_group [21 ..< 41]) = ?st"
  proof (rule foldl_unchanged)
    fix x assume "x \<in> set (map lone_group [21 ..< 41])"
    then have "x \<in> lone_group ` {21 ..< 41}" by (simp only: set_map set_upt)
    then obtain i where "i \<in> {21 ..< 41}" and "x = lone_group i" by blast
    then have "20 < i" "x = lone_group i" by simp_all
    then show "?f ?st x = ?st" by (simp only: group_missing)
  qed
  have "foldl ?f st (map lone_group ([0 ..< 20] @ 20 # [21 ..< 41])) = ?st"
    by (simp only: map_append list.map foldl_append foldl_Cons a b c)
  then show ?thesis by (simp only: split[symmetric])
qed

lemma groups_of_forty_one:
  "location_groups (filter sub_is_active (subscriptions forty_one)) = map lone_group [0 ..< 41]"
proof -
  have "(41::nat) \<le> 2 ^ 53" by simp
  then have "location_groups (map subscriber [0 ..< 41]) = map lone_group [0 ..< 41]"
    by (rule location_groups_subscribers)
  then show ?thesis by (simp only: forty_one_def world.simps active_subscribers)
qed

lemma fetch_forty_one:
  "fetch_batch_current_aqi first_chunk_fails (map spot [0 ..< 41]) = batch_of_twenty_one"
proof -
  have "map spot [0 ..< 41] \<noteq> []" by simp
  then have "fetch_batch_current_aqi first_chunk_fails (map spot [0 ..< 41])
          = filter (\<lambda>r. r \<noteq> None) (all_results first_chunk_fails 0 (map spot [0 ..< 41]))"
    by (simp only: fetch_batch_current_aqi_def if_False)
  then show ?thesis
    by (simp only: all_results_forty_one) (simp add: batch_of_twenty_one_def)
qed

lemma pair_twenty:
  "process_pair always_sent 7 155 (result_with 155) (start_sweep forty_one)
     (sub_user (subscriber 20), subscriber 20)
     = \<lparr>run_world =
          forty_one
            \<lparr>saved_locations :=
               [\<lparr>loc_id = 1, loc_user = 20, loc_name = ''City, None'', loc_latitude = 20,
                 loc_longitude = 0, loc_city = Some ''City'', loc_country = None\<rparr>],
             notifications :=
               [\<lparr>note_user = 20, note_location = 1, note_aqi_value = 155, note_date = 7\<rparr>],
             outbox := [\<lparr>alert_user = 20, alert_location = 1, alert_aqi = 155\<rparr>]\<rparr>,
        notifications_sent = 1, errors = 0, attempts = 1, bound_location = True,
        aborted = False\<rparr>"
  by (simp add: process_pair_def start_sweep_def forty_one_def get_or_create_def fresh_id_def
      already_notified_def send_aqi_alert_email_def dominant_result_with always_sent_def
      subscriber_def str_of_def Let_def del: upt_Suc)

lemma sweep_forty_one:
  "check_and_send_aqi_alerts first_chunk_fails always_sent 7 forty_one
     = (forty_one
          \<lparr>saved_locations :=
             [\<lparr>loc_id = 1, loc_user = 20, loc_name = ''City, None'', loc_latitude = 20,
               loc_longitude = 0, loc_city = Some ''City'', loc_country = None\<rparr>],
           notifications :=
             [\<lparr>note_user = 20, note_location = 1, note_aqi_value = 155, note_date = 7\<rparr>],
           outbox := [\<lparr>alert_user = 20, alert_location = 1, alert_aqi = 155\<rparr>]\<rparr>,
        \<lparr>task_status = ''success'', sent = 1, error_count = 0\<rparr>)"
proof -
  have s: "filter sub_is_active (subscriptions forty_one) \<noteq> []"
    by (simp add: forty_one_def active_subscribers del: upt_Suc)
  have g: "map lone_group [0 ..< 41] \<noteq> []" by simp
  have b: "batch_of_twenty_one \<noteq> []" by (simp add: batch_of_twenty_one_def)
  have na: "\<not> aborted (start_sweep forty_one)" by (simp add: start_sweep_def)
  show ?thesis
    unfolding check_and_send_aqi_alerts_def Let_def groups_of_forty_one unique_locations_lone
      fetch_forty_one groups_forty_one[OF na] pair_twenty
    using s g b by simp
qed

section \<open>Claims about the threshold of the alert sweep\<close>

text \<open>
  Claim C2 says that a pair whose coordinate's fetched index is below 100 never triggers an
  alert mail or a notification row, also when the batch fetch returns results for only some
  of the coordinates.  The sweep pairs the i-th coordinate with the i-th entry of the batch
  result, from which the failed entries have been removed.  In the run of 41 subscriptions
  whose first chunk fails, the coordinate of subscriber 20 is fetched with the index 45, is
  paired with the entry of coordinate 40 (index 155), and subscriber 20 gets an alert mail
  and a notification row.
\<close>

theorem alert_sweep_misaligned:
  "unique_locations (location_groups (filter sub_is_active (subscriptions forty_one))) ! 20
     = \<lparr>lat = 20, lon = 0\<rparr>
   \<and> map_option aqi
        (all_results first_chunk_fails 0
           (unique_locations (location_groups (filter sub_is_active (subscriptions forty_one))))
         ! 20) = Some (Some 45)
   \<and> subscriptions forty_one ! 20 = subscriber 20
   \<and> round4 (sub_latitude (subscriber 20)) = 20 \<and> round4 (sub_longitude (subscriber 20)) = 0
   \<and> user_id (sub_user (subscriber 20)) = 20
   \<and> outbox (fst (check_and_send_aqi_alerts first_chunk_fails always_sent 7 forty_one))
       = [\<lparr>alert_user = 20, alert_location = 1, alert_aqi = 155\<rparr>]
   \<and> notifications (fst (check_and_send_aqi_alerts first_chunk_fails always_sent 7 forty_one))
       = [\<lparr>note_user = 20, note_location = 1, note_aqi_value = 155, note_date = 7\<rparr>]
   \<and> saved_locations (fst (check_and_send_aqi_alerts first_chunk_fails always_sent 7 forty_one))
       = [\<lparr>loc_id = 1, loc_user = 20, loc_name = ''City, None'', loc_latitude = 20,
           loc_longitude = 0, loc_city = Some ''City'', loc_country = None\<rparr>]"
proof (intro conjI)
  show "unique_locations (location_groups (filter sub_is_active (subscriptions forty_one))) ! 20
     = \<lparr>lat = 20, lon = 0\<rparr>"
    by (simp only: groups_of_forty_one unique_locations_lone) (simp add: spot_def del: upt_Suc)
next
  show "map_option aqi
        (all_results first_chunk_fails 0
           (unique_locations (location_groups (filter sub_is_active (subscriptions forty_one))))
         ! 20) = Some (Some 45)"
    by (simp only: groups_of_forty_one unique_locations_lone all_results_forty_one)
       (simp add: nth_append aqi_result_with)
next
  show "subscriptions forty_one ! 20 = subscriber 20"
    by (simp add: forty_one_def del: upt_Suc)
next
  show "round4 (sub_latitude (subscriber 20)) = 20"
    using round4_of_nat[of 20] by (simp add: subscriber_def)
next
  show "round4 (sub_longitude (subscriber 20)) = 0"
    using round4_of_nat[of 0] by (simp add: subscriber_def)
next
  show "user_id (sub_user (subscriber 20)) = 20" by (simp add: subscriber_def)
next
  show "outbox (fst (check_and_send_aqi_alerts first_chunk_fails always_sent 7 forty_one))
       = [\<lparr>alert_user = 20, alert_location = 1, alert_aqi = 155\<rparr>]"
    by (simp only: sweep_forty_one) simp
next
  show "notifications (fst (check_and_send_aqi_alerts first_chunk_fails always_sent 7 forty_one))
       = [\<lparr>note_user = 20, note_location = 1, note_aqi_value = 155, note_date = 7\<rparr>]"
    by (simp only: sweep_forty_one) simp
next
  show "saved_locations (fst (check_and_send_aqi_alerts first_chunk_fails always_sent 7 forty_one))
       = [\<lparr>loc_id = 1, loc_user = 20, loc_name = ''City, None'', loc_latitude = 20,
           loc_longitude = 0, loc_city = Some ''City'', loc_country = None\<rparr>]"
    by (simp only: sweep_forty_one) simp
qed

lemma groups_single:
  "is_active (sub_user s) \<Longrightarrow>
     location_groups [s]
       = [((round4 (sub_latitude s), round4 (sub_longitude s)), [(sub_user s, s)])]"
  by (simp add: location_groups_def group_step_def)

lemma sweep_single:
  assumes "subscriptions w = [s]" and "sub_is_active s" and "is_active (sub_user s)"
    and "fetch_batch_current_aqi request [coordinate_of s] = [Some r]"
    and "aqi r = Some v" and "100 \<le> v"
  shows "check_and_send_aqi_alerts request send_mail today w
           = (let st = process_pair send_mail today v r (start_sweep w) (sub_user s, s)
              in if aborted st
                 then (run_world st, \<lparr>task_status = ''error'', sent = 0, error_count = 0\<rparr>)
                 else (run_world st,
                       \<lparr>task_status = ''success'', sent = notifications_sent st,
                        error_count = errors st\<rparr>))"
proof -
  have na: "\<not> aborted (start_sweep w)" by (simp add: start_sweep_def)
  have u: "unique_locations (location_groups [s]) = [coordinate_of s]"
    using assms(3) by (simp add: groups_single unique_locations_def coordinate_of_def)
  have "foldl (process_group send_mail today
                 (zip (map fst (location_groups [s])) [Some r])) (start_sweep w)
          (location_groups [s])
        = process_pair send_mail today v r (start_sweep w) (sub_user s, s)"
    using assms(3,5,6) na
    by (simp add: groups_single process_group_def AQI_THRESHOLD_def)
  then show ?thesis
    using assms(1,2,3,4) u
    by (simp add: check_and_send_aqi_alerts_def Let_def groups_single)
qed

lemma get_or_create_matching:
  "get_or_create locs (sub_user s) s =
     (case matching_locations locs s of
        [] \<Rightarrow>
          (let created =
                 \<lparr>loc_id = fresh_id locs, loc_user = user_id (sub_user s),
                  loc_name = sub_city s @ '', '' @ str_of (sub_country s),
                  loc_latitude = sub_latitude s, loc_longitude = sub_longitude s,
                  loc_city = Some (sub_city s), loc_country = sub_country s\<rparr>
           in Inr (created, locs @ [created]))
      | [l] \<Rightarrow> Inr (l, locs)
      | _ \<Rightarrow> Inl MultipleObjectsReturned)"
  by (simp add: get_or_create_def matching_locations_def)

lemma get_or_create_at_most_one:
  assumes "length (matching_locations locs s) \<le> 1"
  shows "\<exists>l locs'. get_or_create locs (sub_user s) s = Inr (l, locs')
           \<and> matching_locations locs' s = [l]"
proof (cases "matching_locations locs s")
  case Nil
  let ?c = "\<lparr>loc_id = fresh_id locs, loc_user = user_id (sub_user s),
            loc_name = sub_city s @ '', '' @ str_of (sub_country s),
            loc_latitude = sub_latitude s, loc_longitude = sub_longitude s,
            loc_city = Some (sub_city s), loc_country = sub_country s\<rparr>"
  from Nil have "get_or_create locs (sub_user s) s = Inr (?c, locs @ [?c])"
    by (simp add: get_or_create_matching Let_def)
  moreover from Nil have "matching_locations (locs @ [?c]) s = [?c]"
    by (simp add: matching_locations_def)
  ultimately show ?thesis by blast
next
  case (Cons l ls)
  with assms have ls: "ls = []" by simp
  with Cons have "get_or_create locs (sub_user s) s = Inr (l, locs)"
    by (simp add: get_or_create_matching)
  with Cons ls show ?thesis by simp
qed

lemma get_or_create_found:
  "matching_locations locs s = [l] \<Longrightarrow> get_or_create locs (sub_user s) s = Inr (l, locs)"
  by (simp add: get_or_create_matching)

lemma pair_skipped:
  assumes "\<not> aborted st"
    and "get_or_create (saved_locations (run_world st)) (fst pair) (snd pair) = Inr (l, locs)"
    and "already_notified ((run_world st)\<lparr>saved_locations := locs\<rparr>) (fst pair) l today"
  shows "process_pair send_mail today v d st pair
           = st\<lparr>run_world := (run_world st)\<lparr>saved_locations := locs\<rparr>, bound_location := True\<rparr>"
  using assms by (simp add: process_pair_def Let_def)

lemma pair_outcomes:
  "(notifications (run_world (process_pair send_mail today v d st pair))
      = notifications (run_world st)
    \<and> outbox (run_world (process_pair send_mail today v d st pair)) = outbox (run_world st))
   \<or> (\<exists>l locs. get_or_create (saved_locations (run_world st)) (fst pair) (snd pair) = Inr (l, locs)
         \<and> \<not> already_notified ((run_world st)\<lparr>saved_locations := locs\<rparr>) (fst pair) l today
         \<and> send_aqi_alert_email send_mail (attempts st) (fst pair) l v d = Sent
         \<and> notifications (run_world (process_pair send_mail today v d st pair))
             = notifications (run_world st)
               @ [\<lparr>note_user = user_id (fst pair), note_location = loc_id l,
                    note_aqi_value = v, note_date = today\<rparr>]
         \<and> outbox (run_world (process_pair send_mail today v d st pair))
             = outbox (run_world st)
               @ [\<lparr>alert_user = user_id (fst pair), alert_location = loc_id l,
                    alert_aqi = v\<rparr>])"
proof (cases "aborted st")
  case True
  then show ?thesis by (simp add: process_pair_def)
next
  case False
  show ?thesis
  proof (cases "get_or_create (saved_locations (run_world st)) (fst pair) (snd pair)")
    case (Inl e)
    with False show ?thesis by (simp add: process_pair_def)
  next
    case (Inr found)
    obtain l locs where f: "found = (l, locs)" by (cases found)
    show ?thesis
    proof (cases "already_notified ((run_world st)\<lparr>saved_locations := locs\<rparr>) (fst pair) l today")
      case True
      with False Inr f show ?thesis by (simp add: process_pair_def Let_def)
    next
      case nn: False
      show ?thesis
      proof (cases "send_aqi_alert_email send_mail (attempts st) (fst pair) l v d")
        case Sent
        with False Inr f nn show ?thesis by (simp add: process_pair_def Let_def)
      next
        case NotSent
        with False Inr f nn show ?thesis by (simp add: process_pair_def Let_def)
      next
        case MailRaised
        with False Inr f nn show ?thesis by (simp add: process_pair_def Let_def)
      qed
    qed
  qed
qed

lemma sent_iff:
  "send_aqi_alert_email send_mail calls u l v d = Sent
     \<longleftrightarrow> dominant_pollutant d \<noteq> None \<and> send_mail calls u l v"
  by (simp add: send_aqi_alert_email_def split: option.split)

lemma first_run_pair:
  assumes one: "length (matching_locations (saved_locations w) s) \<le> 1"
    and fresh: "\<not> list_ex (\<lambda>n. note_user n = user_id (sub_user s) \<and> note_date n = today)
                     (notifications w)"
    and dp: "dominant_pollutant d \<noteq> None"
    and ok: "\<forall>l. send_mail 0 (sub_user s) l v"
  shows "\<exists>l locs. matching_locations locs s = [l]
           \<and> process_pair send_mail today v d (start_sweep w) (sub_user s, s)
               = \<lparr>run_world =
                    w\<lparr>saved_locations := locs,
                      notifications :=
                        notifications w
                        @ [\<lparr>note_user = user_id (sub_user s), note_location = loc_id l,
                             note_aqi_value = v, note_date = today\<rparr>],
                      outbox :=
                        outbox w
                        @ [\<lparr>alert_user = user_id (sub_user s), alert_location = loc_id l,
                             alert_aqi = v\<rparr>]\<rparr>,
                  notifications_sent = 1, errors = 0, attempts = 1, bound_location = True,
                  aborted = False\<rparr>"
proof -
  from one obtain l locs where g: "get_or_create (saved_locations w) (sub_user s) s = Inr (l, locs)"
    and m: "matching_locations locs s = [l]"
    using get_or_create_at_most_one by blast
  from fresh have nn: "\<not> already_notified (w\<lparr>saved_locations := locs\<rparr>) (sub_user s) l today"
    by (auto simp: already_notified_def list_ex_iff)
  from ok dp have sent: "send_aqi_alert_email send_mail 0 (sub_user s) l v d = Sent"
    by (simp add: sent_iff)
  have "process_pair send_mail today v d (start_sweep w) (sub_user s, s)
               = \<lparr>run_world =
                    w\<lparr>saved_locations := locs,
                      notifications :=
                        notifications w
                        @ [\<lparr>note_user = user_id (sub_user s), note_location = loc_id l,
                             note_aqi_value = v, note_date = today\<rparr>],
                      outbox :=
                        outbox w
                        @ [\<lparr>alert_user = user_id (sub_user s), alert_location = loc_id l,
                             alert_aqi = v\<rparr>]\<rparr>,
                  notifications_sent = 1, errors = 0, attempts = 1, bound_location = True,
                  aborted = False\<rparr>"
    using g nn sent by (simp add: process_pair_def start_sweep_def Let_def)
  with m show ?thesis by blast
qed

lemma second_run_pair:
  assumes m: "matching_locations (saved_locations w) s = [l]"
    and seen: "already_notified w (sub_user s) l today"
  shows "process_pair send_mail today v d (start_sweep w) (sub_user s, s)
           = \<lparr>run_world = w, notifications_sent = 0, errors = 0, attempts = 0,
              bound_location = True, aborted = False\<rparr>"
proof -
  from m have g: "get_or_create (saved_locations w) (sub_user s) s = Inr (l, saved_locations w)"
    by (rule get_or_create_found)
  have same: "w\<lparr>saved_locations := saved_locations w\<rparr> = w" by simp
  from g seen show ?thesis
    by (simp add: process_pair_def start_sweep_def Let_def same)
qed

lemma two_runs:
  assumes subs: "subscriptions w = [s]" and act: "sub_is_active s" "is_active (sub_user s)"
    and one: "length (matching_locations (saved_locations w) s) \<le> 1"
    and fresh: "\<not> list_ex (\<lambda>n. note_user n = user_id (sub_user s) \<and> note_date n = today)
                     (notifications w)"
    and f1: "fetch_batch_current_aqi request1 [coordinate_of s] = [Some r1]"
      "aqi r1 = Some v1" "100 \<le> v1"
    and dp: "dominant_pollutant r1 \<noteq> None"
    and f2: "fetch_batch_current_aqi request2 [coordinate_of s] = [Some r2]"
      "aqi r2 = Some v2" "100 \<le> v2"
    and ok: "\<forall>l. send_mail1 0 (sub_user s) l v1"
  shows "\<exists>l :: saved_location. outbox (fst (check_and_send_aqi_alerts request2 send_mail2 today
                             (fst (check_and_send_aqi_alerts request1 send_mail1 today w))))
               = outbox w
                 @ [\<lparr>alert_user = user_id (sub_user s), alert_location = loc_id l,
                      alert_aqi = v1\<rparr>]
           \<and> notifications (fst (check_and_send_aqi_alerts request2 send_mail2 today
                                    (fst (check_and_send_aqi_alerts request1 send_mail1 today w))))
               = notifications w
                 @ [\<lparr>note_user = user_id (sub_user s), note_location = loc_id l,
                      note_aqi_value = v1, note_date = today\<rparr>]
           \<and> sent (snd (check_and_send_aqi_alerts request1 send_mail1 today w)) = 1
           \<and> sent (snd (check_and_send_aqi_alerts request2 send_mail2 today
                           (fst (check_and_send_aqi_alerts request1 send_mail1 today w)))) = 0"
proof -
  obtain l locs where m: "matching_locations locs s = [l]"
    and p1: "process_pair send_mail1 today v1 r1 (start_sweep w) (sub_user s, s)
               = \<lparr>run_world =
                    w\<lparr>saved_locations := locs,
                      notifications :=
                        notifications w
                        @ [\<lparr>note_user = user_id (sub_user s), note_location = loc_id l,
                             note_aqi_value = v1, note_date = today\<rparr>],
                      outbox :=
                        outbox w
                        @ [\<lparr>alert_user = user_id (sub_user s), alert_location = loc_id l,
                             alert_aqi = v1\<rparr>]\<rparr>,
                  notifications_sent = 1, errors = 0, attempts = 1, bound_location = True,
                  aborted = False\<rparr>"
    using first_run_pair[of w s today r1 send_mail1 v1, OF one fresh dp ok] by blast
  let ?w1 = "w\<lparr>saved_locations := locs,
               notifications :=
                 notifications w
                 @ [\<lparr>note_user = user_id (sub_user s), note_location = loc_id l,
                      note_aqi_value = v1, note_date = today\<rparr>],
               outbox :=
                 outbox w
                 @ [\<lparr>alert_user = user_id (sub_user s), alert_location = loc_id l,
                      alert_aqi = v1\<rparr>]\<rparr>"
  have r1: "check_and_send_aqi_alerts request1 send_mail1 today w
              = (?w1, \<lparr>task_status = ''success'', sent = 1, error_count = 0\<rparr>)"
    by (simp add: sweep_single[OF subs act f1] p1 Let_def)
  have subs1: "subscriptions ?w1 = [s]" using subs by simp
  have m1: "matching_locations (saved_locations ?w1) s = [l]" using m by simp
  have d1: "already_notified ?w1 (sub_user s) l today"
    by (simp add: already_notified_def)
  have p2: "process_pair send_mail2 today v2 r2 (start_sweep ?w1) (sub_user s, s)
           = \<lparr>run_world = ?w1, notifications_sent = 0, errors = 0, attempts = 0,
              bound_location = True, aborted = False\<rparr>"
    using m1 d1 by (rule second_run_pair)
  have r2: "check_and_send_aqi_alerts request2 send_mail2 today ?w1
              = (?w1, \<lparr>task_status = ''success'', sent = 0, error_count = 0\<rparr>)"
    by (simp add: sweep_single[OF subs1 act f2] p2 Let_def)
  show ?thesis
    unfolding r1 fst_conv snd_conv r2 by auto
qed

lemma fetch_single_155: "fetch_batch_current_aqi always_155 [x] = [Some (result_with 155)]"
  by (simp add: fetch_batch_current_aqi_def all_results.simps[of _ 0] all_results.simps[of _ 20]
      BATCH_CHUNK_SIZE_def always_155_def)

text \<open>The invariant of the sweep, and the mails of a series of sweeps.\<close>

lemma already_notified_has_row:
  "already_notified w u l today = has_row (notifications w) (user_id u, loc_id l) today"
  by (simp add: already_notified_def has_row_def list_ex_iff)

lemma has_row_append:
  "has_row (xs @ ys) k d \<longleftrightarrow> has_row xs k d \<or> has_row ys k d"
  by (auto simp: has_row_def list_ex_iff)

lemma has_row_notification_of:
  "has_row (map (notification_of today) A) k d \<longleftrightarrow> d = today \<and> k \<in> set (map alert_key A)"
  by (auto simp: has_row_def list_ex_iff notification_of_def alert_key_def)

lemma sweep_invariant_refl: "sweep_invariant w today w"
  by (simp add: sweep_invariant_def new_alerts_def)

lemma sweep_invariant_locs:
  "sweep_invariant w today w' \<Longrightarrow> sweep_invariant w today (w'\<lparr>saved_locations := locs\<rparr>)"
  by (simp add: sweep_invariant_def new_alerts_def)

lemma sweep_invariant_send:
  assumes inv: "sweep_invariant w today w'"
    and fresh: "\<not> has_row (notifications w') (u, l) today"
  shows "sweep_invariant w today
           (w'\<lparr>notifications :=
                 notifications w'
                 @ [\<lparr>note_user = u, note_location = l, note_aqi_value = v, note_date = today\<rparr>],
               outbox := outbox w' @ [\<lparr>alert_user = u, alert_location = l, alert_aqi = v\<rparr>]\<rparr>)"
proof -
  define A where "A = new_alerts w w'"
  define a where "a = \<lparr>alert_user = u, alert_location = l, alert_aqi = v\<rparr>"
  define w2 where "w2 = w'\<lparr>notifications :=
                 notifications w'
                 @ [\<lparr>note_user = u, note_location = l, note_aqi_value = v, note_date = today\<rparr>],
               outbox := outbox w' @ [a]\<rparr>"
  from inv have o: "outbox w' = outbox w @ A"
    and n: "notifications w' = notifications w @ map (notification_of today) A"
    and d: "distinct (map alert_key A)"
    and f: "\<forall>a \<in> set A. \<not> has_row (notifications w) (alert_key a) today"
    by (simp_all add: sweep_invariant_def A_def)
  have o2: "outbox w2 = outbox w @ (A @ [a])" using o by (simp add: w2_def)
  then have na: "new_alerts w w2 = A @ [a]" by (simp add: new_alerts_def)
  have k: "alert_key a = (u, l)" by (simp add: alert_key_def a_def)
  from fresh have f1: "\<not> has_row (notifications w) (u, l) today"
    and f2: "(u, l) \<notin> set (map alert_key A)"
    unfolding n has_row_append has_row_notification_of by simp_all
  have n2: "notifications w2 = notifications w @ map (notification_of today) (A @ [a])"
    using n by (simp add: notification_of_def w2_def a_def)
  have d2: "distinct (map alert_key (A @ [a]))" using d f2 k by simp
  have f3: "\<forall>x \<in> set (A @ [a]). \<not> has_row (notifications w) (alert_key x) today"
    using f f1 k by auto
  have "sweep_invariant w today w2"
    unfolding sweep_invariant_def na using o2 n2 d2 f3 by (intro conjI)
  then show ?thesis by (simp add: w2_def a_def)
qed

lemma process_pair_invariant:
  assumes "sweep_invariant w today (run_world st)"
  shows "sweep_invariant w today (run_world (process_pair send_mail today v d st pair))"
proof (cases "aborted st")
  case True
  with assms show ?thesis by (simp add: process_pair_def)
next
  case False
  show ?thesis
  proof (cases "get_or_create (saved_locations (run_world st)) (fst pair) (snd pair)")
    case (Inl e)
    with False assms show ?thesis by (simp add: process_pair_def)
  next
    case (Inr found)
    obtain l locs where f: "found = (l, locs)" by (cases found)
    let ?w = "(run_world st)\<lparr>saved_locations := locs\<rparr>"
    have i1: "sweep_invariant w today ?w" using assms by (rule sweep_invariant_locs)
    show ?thesis
    proof (cases "already_notified ?w (fst pair) l today")
      case True
      with False Inr f i1 show ?thesis by (simp add: process_pair_def Let_def)
    next
      case nn: False
      then have fr: "\<not> has_row (notifications ?w) (user_id (fst pair), loc_id l) today"
        by (simp add: already_notified_has_row)
      show ?thesis
      proof (cases "send_aqi_alert_email send_mail (attempts st) (fst pair) l v d")
        case Sent
        have "sweep_invariant w today
           (?w\<lparr>notifications :=
                 notifications ?w
                 @ [\<lparr>note_user = user_id (fst pair), note_location = loc_id l,
                      note_aqi_value = v, note_date = today\<rparr>],
               outbox := outbox ?w @ [\<lparr>alert_user = user_id (fst pair),
                                        alert_location = loc_id l, alert_aqi = v\<rparr>]\<rparr>)"
          using i1 fr by (rule sweep_invariant_send)
        with False Inr f nn Sent show ?thesis by (simp add: process_pair_def Let_def)
      next
        case NotSent
        with False Inr f nn i1 show ?thesis by (simp add: process_pair_def Let_def)
      next
        case MailRaised
        with False Inr f nn i1 show ?thesis by (simp add: process_pair_def Let_def)
      qed
    qed
  qed
qed

lemma pairs_invariant:
  "sweep_invariant w today (run_world st)
     \<Longrightarrow> sweep_invariant w today (run_world (foldl (process_pair send_mail today v d) st pairs))"
  by (induction pairs arbitrary: st) (simp_all add: process_pair_invariant)

lemma process_group_invariant:
  "sweep_invariant w today (run_world st)
     \<Longrightarrow> sweep_invariant w today (run_world (process_group send_mail today m st grp))"
  by (auto simp: process_group_def pairs_invariant split: option.splits)

lemma groups_invariant:
  "sweep_invariant w today (run_world st)
     \<Longrightarrow> sweep_invariant w today (run_world (foldl (process_group send_mail today m) st groups))"
  by (induction groups arbitrary: st) (simp_all add: process_group_invariant)

lemma sweep_keeps_invariant:
  "sweep_invariant w today (fst (check_and_send_aqi_alerts request send_mail today w))"
proof -
  have "sweep_invariant w today (run_world (start_sweep w))"
    by (simp add: start_sweep_def sweep_invariant_refl)
  then have "\<And>m groups. sweep_invariant w today
               (run_world (foldl (process_group send_mail today m) (start_sweep w) groups))"
    by (rule groups_invariant)
  then show ?thesis
    by (simp add: check_and_send_aqi_alerts_def Let_def sweep_invariant_refl)
qed

lemma sweep_log:
  "outbox (fst (check_and_send_aqi_alerts request send_mail today w))
     = outbox w @ new_alerts w (fst (check_and_send_aqi_alerts request send_mail today w))
   \<and> notifications (fst (check_and_send_aqi_alerts request send_mail today w))
       = notifications w
         @ map (notification_of today)
             (new_alerts w (fst (check_and_send_aqi_alerts request send_mail today w)))
   \<and> distinct (map alert_key
                  (new_alerts w (fst (check_and_send_aqi_alerts request send_mail today w))))
   \<and> (\<forall>a \<in> set (new_alerts w (fst (check_and_send_aqi_alerts request send_mail today w))).
         \<not> has_row (notifications w) (alert_key a) today)"
  using sweep_keeps_invariant[of w today request send_mail] by (simp add: sweep_invariant_def)

lemma dated_key_today: "dated_key (today, a) = (fst (alert_key a), snd (alert_key a), today)"
  by (simp add: dated_key_def alert_key_def)

lemma distinct_dated:
  "distinct (map alert_key A) \<Longrightarrow> distinct (map dated_key (map (Pair today) A))"
proof -
  assume d: "distinct (map alert_key A)"
  have "map dated_key (map (Pair today) A) = map (\<lambda>k. (fst k, snd k, today)) (map alert_key A)"
    by (simp add: dated_key_today)
  moreover have "inj (\<lambda>k :: nat \<times> nat. (fst k, snd k, today))"
    by (rule injI) (simp add: prod_eq_iff)
  ultimately show ?thesis using d by (simp only: distinct_map) (auto intro: inj_on_subset)
qed

lemma run_sweeps_log:
  "outbox (fst (run_sweeps w runs)) = outbox w @ map snd (snd (run_sweeps w runs))
   \<and> notifications (fst (run_sweeps w runs))
       = notifications w
         @ map (\<lambda>da. notification_of (fst da) (snd da)) (snd (run_sweeps w runs))
   \<and> distinct (map dated_key (snd (run_sweeps w runs)))
   \<and> (\<forall>da \<in> set (snd (run_sweeps w runs)).
         \<not> has_row (notifications w) (alert_key (snd da)) (fst da))"
proof (induction runs arbitrary: w)
  case Nil
  show ?case by simp
next
  case (Cons run runs)
  obtain today request send_mail where run: "run = (today, request, send_mail)"
    by (cases run)
  define w1 where "w1 = fst (check_and_send_aqi_alerts request send_mail today w)"
  define A where "A = new_alerts w w1"
  define log where "log = snd (run_sweeps w1 runs)"
  have o1: "outbox w1 = outbox w @ A"
    and n1: "notifications w1 = notifications w @ map (notification_of today) A"
    and d1: "distinct (map alert_key A)"
    and f1: "\<forall>a \<in> set A. \<not> has_row (notifications w) (alert_key a) today"
    using sweep_log[of request send_mail today w] by (simp_all add: w1_def A_def)
  have o2: "outbox (fst (run_sweeps w1 runs)) = outbox w1 @ map snd log"
    and n2: "notifications (fst (run_sweeps w1 runs))
               = notifications w1 @ map (\<lambda>da. notification_of (fst da) (snd da)) log"
    and d2: "distinct (map dated_key log)"
    and f2: "\<forall>da \<in> set log. \<not> has_row (notifications w1) (alert_key (snd da)) (fst da)"
    using Cons.IH[of w1] by (simp_all add: log_def)
  have r: "run_sweeps w (run # runs) = (fst (run_sweeps w1 runs), map (Pair today) A @ log)"
    by (simp add: run Let_def w1_def A_def log_def)
  have "outbox (fst (run_sweeps w1 runs)) = outbox w @ map snd (map (Pair today) A @ log)"
    using o1 o2 by (simp add: comp_def)
  moreover have "notifications (fst (run_sweeps w1 runs))
       = notifications w
         @ map (\<lambda>da. notification_of (fst da) (snd da)) (map (Pair today) A @ log)"
    using n1 n2 by (simp add: comp_def)
  moreover have "distinct (map dated_key (map (Pair today) A @ log))"
  proof -
    have "distinct (map dated_key (map (Pair today) A))" using d1 by (rule distinct_dated)
    moreover have "set (map dated_key (map (Pair today) A)) \<inter> set (map dated_key log) = {}"
    proof (rule ccontr)
      assume "set (map dated_key (map (Pair today) A)) \<inter> set (map dated_key log) \<noteq> {}"
      then obtain k where k1: "k \<in> set (map dated_key (map (Pair today) A))"
        and k2: "k \<in> set (map dated_key log)"
        by blast
      from k1 obtain a where a: "a \<in> set A" and ka: "k = dated_key (today, a)" by auto
      from k2 obtain da where da: "da \<in> set log" and kd: "k = dated_key da" by auto
      from ka kd have e: "dated_key (today, a) = dated_key da" by simp
      from e have "fst da = today" and "alert_key (snd da) = alert_key a"
        by (simp_all add: dated_key_def alert_key_def)
      moreover from a have "has_row (notifications w1) (alert_key a) today"
        unfolding n1 has_row_append has_row_notification_of by simp
      ultimately show False using f2 da by auto
    qed
    ultimately show ?thesis using d2 by simp
  qed
  moreover have "\<forall>da \<in> set (map (Pair today) A @ log).
         \<not> has_row (notifications w) (alert_key (snd da)) (fst da)"
  proof
    fix da
    assume "da \<in> set (map (Pair today) A @ log)"
    then consider a where "a \<in> set A" "da = (today, a)" | "da \<in> set log" by auto
    then show "\<not> has_row (notifications w) (alert_key (snd da)) (fst da)"
    proof cases
      case 1
      with f1 show ?thesis by simp
    next
      case 2
      with f2 have "\<not> has_row (notifications w1) (alert_key (snd da)) (fst da)" by simp
      then show ?thesis unfolding n1 has_row_append by simp
    qed
  qed
  ultimately show ?case unfolding r fst_conv snd_conv by (intro conjI)
qed
text \<open>The sweeps over the two subscriptions of one user at one coordinate.\<close>

lemma round4_five: "round4 5 = 5" "round4 0 = 0"
  using round4_of_nat[of 5] round4_of_nat[of 0] by simp_all

lemma twin_groups:
  assumes "subscriptions w = subscriptions twin_world"
  shows "location_groups (filter sub_is_active (subscriptions w)) =
     [((5, 0), [(sub_user (subscriber 5), subscriber 5),
                (sub_user (subscriber 5), (subscriber 5)\<lparr>sub_city := ''Town''\<rparr>)])]"
  using assms
  by (simp add: twin_world_def location_groups_def group_step_def subscriber_def round4_five)

lemma twin_sweep:
  assumes "subscriptions w = subscriptions twin_world"
  shows "check_and_send_aqi_alerts always_155 always_sent today w
     = (let st = foldl (process_pair always_sent today 155 (result_with 155)) (start_sweep w)
                   [(sub_user (subscriber 5), subscriber 5),
                    (sub_user (subscriber 5), (subscriber 5)\<lparr>sub_city := ''Town''\<rparr>)]
        in if aborted st
           then (run_world st, \<lparr>task_status = ''error'', sent = 0, error_count = 0\<rparr>)
           else (run_world st,
                 \<lparr>task_status = ''success'', sent = notifications_sent st,
                  error_count = errors st\<rparr>))"
proof -
  have s: "filter sub_is_active (subscriptions w) \<noteq> []"
    using assms by (simp add: twin_world_def subscriber_def)
  show ?thesis
    unfolding check_and_send_aqi_alerts_def Let_def twin_groups[OF assms]
    using s
    by (simp add: unique_locations_def fetch_single_155 process_group_def aqi_result_with
        AQI_THRESHOLD_def start_sweep_def)
qed

lemma twin_first:
  "check_and_send_aqi_alerts always_155 always_sent 7 twin_world
     = (twin_alerted, \<lparr>task_status = ''success'', sent = 1, error_count = 0\<rparr>)"
  unfolding twin_sweep[OF refl]
  by (simp add: twin_alerted_def process_pair_def start_sweep_def twin_world_def
      get_or_create_def fresh_id_def already_notified_def send_aqi_alert_email_def
      dominant_result_with always_sent_def subscriber_def str_of_def Let_def)

lemma twin_second:
  "check_and_send_aqi_alerts always_155 always_sent 7 twin_alerted
     = (twin_alerted, \<lparr>task_status = ''success'', sent = 0, error_count = 0\<rparr>)"
proof -
  have s: "subscriptions twin_alerted = subscriptions twin_world" by (simp add: twin_alerted_def)
  show ?thesis
    unfolding twin_sweep[OF s]
    by (simp add: twin_alerted_def process_pair_def start_sweep_def twin_world_def
        get_or_create_def fresh_id_def already_notified_def send_aqi_alert_email_def
        dominant_result_with always_sent_def subscriber_def str_of_def Let_def)
qed

lemma twin_series:
  "run_sweeps twin_world [(7, always_155, always_sent), (7, always_155, always_sent)]
     = (twin_alerted, [(7, \<lparr>alert_user = 5, alert_location = 1, alert_aqi = 155\<rparr>)])"
  by (simp add: twin_first twin_second Let_def new_alerts_def)
     (simp add: twin_alerted_def twin_world_def)

section \<open>Claims about the daily de-duplication of the alert sweep\<close>

text \<open>
  Claim C3.  When the sweep handles a \<open>(user, subscription)\<close> pair whose saved location
  already has a notification row for the user and today's date, it sends no mail, makes no
  attempt to send one and adds no row.  Whatever the pair, either the notification table and
  the mails sent are unchanged, or no row existed for (user, saved location, today),
  \<open>send_aqi_alert_email\<close> returned \<open>True\<close> (which it does exactly when the result names a
  dominant pollutant and the transport accepts the mail), and exactly one row and one mail for
  that user, location and date were added: a row is created only after a successful send.

  For every sweep, over any subscriptions, any provider and any mail transport: the mails of
  the sweep and the rows it creates correspond one to one, no two mails of the sweep are for
  the same (user, saved location), and no mail is for a (user, saved location) that had a row
  for the date of the sweep before it.  Hence, for every series of sweeps on one database,
  each with its own date, provider and transport, no two mails of the series are for the same
  (user, saved location, date), and none is for a triple that had a row before the series.

  In particular, for one active subscription of an active user whose coordinate is fetched
  with an index of at least 100 in both runs (with a dominant pollutant in the first), with no
  notification for the user today before the first run and a mail transport that accepts the
  first mail, two runs of the sweep on the same date send exactly one mail and create exactly
  one row: the first run reports one notification, the second none.
\<close>

theorem alert_once_per_day:
  "(\<forall>send_mail today v d st pair l locs.
       \<not> aborted st
       \<and> get_or_create (saved_locations (run_world st)) (fst pair) (snd pair) = Inr (l, locs)
       \<and> already_notified ((run_world st)\<lparr>saved_locations := locs\<rparr>) (fst pair) l today
     \<longrightarrow> notifications (run_world (process_pair send_mail today v d st pair))
           = notifications (run_world st)
         \<and> outbox (run_world (process_pair send_mail today v d st pair)) = outbox (run_world st)
         \<and> attempts (process_pair send_mail today v d st pair) = attempts st)
   \<and> (\<forall>send_mail today v d st pair.
         (notifications (run_world (process_pair send_mail today v d st pair))
            = notifications (run_world st)
          \<and> outbox (run_world (process_pair send_mail today v d st pair)) = outbox (run_world st))
         \<or> (\<exists>l locs.
               get_or_create (saved_locations (run_world st)) (fst pair) (snd pair) = Inr (l, locs)
               \<and> \<not> already_notified ((run_world st)\<lparr>saved_locations := locs\<rparr>) (fst pair) l today
               \<and> send_aqi_alert_email send_mail (attempts st) (fst pair) l v d = Sent
               \<and> notifications (run_world (process_pair send_mail today v d st pair))
                   = notifications (run_world st)
                     @ [\<lparr>note_user = user_id (fst pair), note_location = loc_id l,
                          note_aqi_value = v, note_date = today\<rparr>]
               \<and> outbox (run_world (process_pair send_mail today v d st pair))
                   = outbox (run_world st)
                     @ [\<lparr>alert_user = user_id (fst pair), alert_location = loc_id l,
                          alert_aqi = v\<rparr>]))
   \<and> (\<forall>send_mail calls u l v d.
         send_aqi_alert_email send_mail calls u l v d = Sent
           \<longleftrightarrow> dominant_pollutant d \<noteq> None \<and> send_mail calls u l v)
   \<and> (\<forall>request send_mail today w.
         outbox (fst (check_and_send_aqi_alerts request send_mail today w))
           = outbox w @ new_alerts w (fst (check_and_send_aqi_alerts request send_mail today w))
         \<and> notifications (fst (check_and_send_aqi_alerts request send_mail today w))
             = notifications w
               @ map (notification_of today)
                   (new_alerts w (fst (check_and_send_aqi_alerts request send_mail today w)))
         \<and> distinct (map alert_key
                        (new_alerts w (fst (check_and_send_aqi_alerts request send_mail today w))))
         \<and> (\<forall>a \<in> set (new_alerts w (fst (check_and_send_aqi_alerts request send_mail today w))).
               \<not> has_row (notifications w) (alert_key a) today))
   \<and> (\<forall>w runs.
         outbox (fst (run_sweeps w runs)) = outbox w @ map snd (snd (run_sweeps w runs))
         \<and> notifications (fst (run_sweeps w runs))
             = notifications w
               @ map (\<lambda>da. notification_of (fst da) (snd da)) (snd (run_sweeps w runs))
         \<and> distinct (map dated_key (snd (run_sweeps w runs)))
         \<and> (\<forall>da \<in> set (snd (run_sweeps w runs)).
               \<not> has_row (notifications w) (alert_key (snd da)) (fst da)))
   \<and> (\<forall>request1 request2 send_mail1 send_mail2 today w s r1 r2 v1 v2.
         subscriptions w = [s] \<and> sub_is_active s \<and> is_active (sub_user s)
         \<and> length (matching_locations (saved_locations w) s) \<le> 1
         \<and> \<not> list_ex (\<lambda>n. note_user n = user_id (sub_user s) \<and> note_date n = today)
               (notifications w)
         \<and> fetch_batch_current_aqi request1 [coordinate_of s] = [Some r1]
         \<and> aqi r1 = Some v1 \<and> 100 \<le> v1 \<and> dominant_pollutant r1 \<noteq> None
         \<and> fetch_batch_current_aqi request2 [coordinate_of s] = [Some r2]
         \<and> aqi r2 = Some v2 \<and> 100 \<le> v2
         \<and> (\<forall>l. send_mail1 0 (sub_user s) l v1)
       \<longrightarrow> (\<exists>l :: saved_location.
              outbox (fst (check_and_send_aqi_alerts request2 send_mail2 today
                             (fst (check_and_send_aqi_alerts request1 send_mail1 today w))))
                = outbox w
                  @ [\<lparr>alert_user = user_id (sub_user s), alert_location = loc_id l,
                       alert_aqi = v1\<rparr>]
              \<and> notifications (fst (check_and_send_aqi_alerts request2 send_mail2 today
                                     (fst (check_and_send_aqi_alerts request1 send_mail1 today w))))
                  = notifications w
                    @ [\<lparr>note_user = user_id (sub_user s), note_location = loc_id l,
                         note_aqi_value = v1, note_date = today\<rparr>]
              \<and> sent (snd (check_and_send_aqi_alerts request1 send_mail1 today w)) = 1
              \<and> sent (snd (check_and_send_aqi_alerts request2 send_mail2 today
                              (fst (check_and_send_aqi_alerts request1 send_mail1 today w)))) = 0))"
proof (intro conjI)
  show "\<forall>send_mail today v d st pair l locs.
       \<not> aborted st
       \<and> get_or_create (saved_locations (run_world st)) (fst pair) (snd pair) = Inr (l, locs)
       \<and> already_notified ((run_world st)\<lparr>saved_locations := locs\<rparr>) (fst pair) l today
     \<longrightarrow> notifications (run_world (process_pair send_mail today v d st pair))
           = notifications (run_world st)
         \<and> outbox (run_world (process_pair send_mail today v d st pair)) = outbox (run_world st)
         \<and> attempts (process_pair send_mail today v d st pair) = attempts st"
  proof (intro allI impI)
    fix send_mail today v d and st :: sweep and pair l locs
    assume a: "\<not> aborted st
       \<and> get_or_create (saved_locations (run_world st)) (fst pair) (snd pair) = Inr (l, locs)
       \<and> already_notified ((run_world st)\<lparr>saved_locations := locs\<rparr>) (fst pair) l today"
    then have "process_pair send_mail today v d st pair
           = st\<lparr>run_world := (run_world st)\<lparr>saved_locations := locs\<rparr>, bound_location := True\<rparr>"
      using pair_skipped[of st pair l locs today send_mail v d] by blast
    then show "notifications (run_world (process_pair send_mail today v d st pair))
           = notifications (run_world st)
         \<and> outbox (run_world (process_pair send_mail today v d st pair)) = outbox (run_world st)
         \<and> attempts (process_pair send_mail today v d st pair) = attempts st"
      by simp
  qed
next
  show "\<forall>send_mail today v d st pair.
         (notifications (run_world (process_pair send_mail today v d st pair))
            = notifications (run_world st)
          \<and> outbox (run_world (process_pair send_mail today v d st pair)) = outbox (run_world st))
         \<or> (\<exists>l locs.
               get_or_create (saved_locations (run_world st)) (fst pair) (snd pair) = Inr (l, locs)
               \<and> \<not> already_notified ((run_world st)\<lparr>saved_locations := locs\<rparr>) (fst pair) l today
               \<and> send_aqi_alert_email send_mail (attempts st) (fst pair) l v d = Sent
               \<and> notifications (run_world (process_pair send_mail today v d st pair))
                   = notifications (run_world st)
                     @ [\<lparr>note_user = user_id (fst pair), note_location = loc_id l,
                          note_aqi_value = v, note_date = today\<rparr>]
               \<and> outbox (run_world (process_pair send_mail today v d st pair))
                   = outbox (run_world st)
                     @ [\<lparr>alert_user = user_id (fst pair), alert_location = loc_id l,
                          alert_aqi = v\<rparr>])"
    by (intro allI) (rule pair_outcomes)
next
  show "\<forall>send_mail calls u l v d.
         send_aqi_alert_email send_mail calls u l v d = Sent
           \<longleftrightarrow> dominant_pollutant d \<noteq> None \<and> send_mail calls u l v"
    by (intro allI) (rule sent_iff)
next
  show "\<forall>request send_mail today w.
         outbox (fst (check_and_send_aqi_alerts request send_mail today w))
           = outbox w @ new_alerts w (fst (check_and_send_aqi_alerts request send_mail today w))
         \<and> notifications (fst (check_and_send_aqi_alerts request send_mail today w))
             = notifications w
               @ map (notification_of today)
                   (new_alerts w (fst (check_and_send_aqi_alerts request send_mail today w)))
         \<and> distinct (map alert_key
                        (new_alerts w (fst (check_and_send_aqi_alerts request send_mail today w))))
         \<and> (\<forall>a \<in> set (new_alerts w (fst (check_and_send_aqi_alerts request send_mail today w))).
               \<not> has_row (notifications w) (alert_key a) today)"
    by (intro allI) (rule sweep_log)
next
  show "\<forall>w runs.
         outbox (fst (run_sweeps w runs)) = outbox w @ map snd (snd (run_sweeps w runs))
         \<and> notifications (fst (run_sweeps w runs))
             = notifications w
               @ map (\<lambda>da. notification_of (fst da) (snd da)) (snd (run_sweeps w runs))
         \<and> distinct (map dated_key (snd (run_sweeps w runs)))
         \<and> (\<forall>da \<in> set (snd (run_sweeps w runs)).
               \<not> has_row (notifications w) (alert_key (snd da)) (fst da))"
    by (intro allI) (rule run_sweeps_log)
next
  show "\<forall>request1 request2 send_mail1 send_mail2 today w s r1 r2 v1 v2.
         subscriptions w = [s] \<and> sub_is_active s \<and> is_active (sub_user s)
         \<and> length (matching_locations (saved_locations w) s) \<le> 1
         \<and> \<not> list_ex (\<lambda>n. note_user n = user_id (sub_user s) \<and> note_date n = today)
               (notifications w)
         \<and> fetch_batch_current_aqi request1 [coordinate_of s] = [Some r1]
         \<and> aqi r1 = Some v1 \<and> 100 \<le> v1 \<and> dominant_pollutant r1 \<noteq> None
         \<and> fetch_batch_current_aqi request2 [coordinate_of s] = [Some r2]
         \<and> aqi r2 = Some v2 \<and> 100 \<le> v2
         \<and> (\<forall>l. send_mail1 0 (sub_user s) l v1)
       \<longrightarrow> (\<exists>l :: saved_location.
              outbox (fst (check_and_send_aqi_alerts request2 send_mail2 today
                             (fst (check_and_send_aqi_alerts request1 send_mail1 today w))))
                = outbox w
                  @ [\<lparr>alert_user = user_id (sub_user s), alert_location = loc_id l,
                       alert_aqi = v1\<rparr>]
              \<and> notifications (fst (check_and_send_aqi_alerts request2 send_mail2 today
                                     (fst (check_and_send_aqi_alerts request1 send_mail1 today w))))
                  = notifications w
                    @ [\<lparr>note_user = user_id (sub_user s), note_location = loc_id l,
                         note_aqi_value = v1, note_date = today\<rparr>]
              \<and> sent (snd (check_and_send_aqi_alerts request1 send_mail1 today w)) = 1
              \<and> sent (snd (check_and_send_aqi_alerts request2 send_mail2 today
                              (fst (check_and_send_aqi_alerts request1 send_mail1 today w)))) = 0)"
  proof (intro allI impI)
    fix request1 request2 :: "nat \<Rightarrow> location list \<Rightarrow> response"
      and send_mail1 send_mail2 :: "nat \<Rightarrow> user \<Rightarrow> saved_location \<Rightarrow> rat \<Rightarrow> bool"
      and today :: int and w :: world and s :: city_subscription
      and r1 r2 :: formatted and v1 v2 :: rat
    assume h: "subscriptions w = [s] \<and> sub_is_active s \<and> is_active (sub_user s)
         \<and> length (matching_locations (saved_locations w) s) \<le> 1
         \<and> \<not> list_ex (\<lambda>n. note_user n = user_id (sub_user s) \<and> note_date n = today)
               (notifications w)
         \<and> fetch_batch_current_aqi request1 [coordinate_of s] = [Some r1]
         \<and> aqi r1 = Some v1 \<and> 100 \<le> v1 \<and> dominant_pollutant r1 \<noteq> None
         \<and> fetch_batch_current_aqi request2 [coordinate_of s] = [Some r2]
         \<and> aqi r2 = Some v2 \<and> 100 \<le> v2
         \<and> (\<forall>l. send_mail1 0 (sub_user s) l v1)"
    then have h1: "subscriptions w = [s]" and h2: "sub_is_active s" and h3: "is_active (sub_user s)"
      and h4: "length (matching_locations (saved_locations w) s) \<le> 1"
      and h5: "\<not> list_ex (\<lambda>n. note_user n = user_id (sub_user s) \<and> note_date n = today)
               (notifications w)"
      and h6: "fetch_batch_current_aqi request1 [coordinate_of s] = [Some r1]"
      and h7: "aqi r1 = Some v1" and h8: "100 \<le> v1" and hd: "dominant_pollutant r1 \<noteq> None"
      and h9: "fetch_batch_current_aqi request2 [coordinate_of s] = [Some r2]"
      and h10: "aqi r2 = Some v2" and h11: "100 \<le> v2"
      and h12: "\<forall>l. send_mail1 0 (sub_user s) l v1"
      by simp_all
    show "\<exists>l :: saved_location.
              outbox (fst (check_and_send_aqi_alerts request2 send_mail2 today
                             (fst (check_and_send_aqi_alerts request1 send_mail1 today w))))
                = outbox w
                  @ [\<lparr>alert_user = user_id (sub_user s), alert_location = loc_id l,
                       alert_aqi = v1\<rparr>]
              \<and> notifications (fst (check_and_send_aqi_alerts request2 send_mail2 today
                                     (fst (check_and_send_aqi_alerts request1 send_mail1 today w))))
                  = notifications w
                    @ [\<lparr>note_user = user_id (sub_user s), note_location = loc_id l,
                         note_aqi_value = v1, note_date = today\<rparr>]
              \<and> sent (snd (check_and_send_aqi_alerts request1 send_mail1 today w)) = 1
              \<and> sent (snd (check_and_send_aqi_alerts request2 send_mail2 today
                              (fst (check_and_send_aqi_alerts request1 send_mail1 today w)))) = 0"
      using h1 h2 h3 h4 h5 h6 h7 h8 hd h9 h10 h11 h12 by (rule two_runs)
  qed
qed

text \<open>
  The hypotheses of C3 at concrete inputs, with a provider that answers 155 with the dominant
  pollutant \<open>pm2_5\<close> and a transport that accepts every mail.  In the world with the one
  subscription of subscriber 5, two runs on day 7 leave one mail and one row.  In the world
  where user 5 has two subscriptions at one coordinate, the two sweeps of day 7 send one
  mail in all: the first sweep sends it for the first subscription and skips the second, the
  second sweep skips both.
\<close>

theorem alert_once_per_day_witness:
  "subscriptions lone_world = [subscriber 5] \<and> sub_is_active (subscriber 5)
   \<and> is_active (sub_user (subscriber 5))
   \<and> length (matching_locations (saved_locations lone_world) (subscriber 5)) \<le> 1
   \<and> fetch_batch_current_aqi always_155 [coordinate_of (subscriber 5)] = [Some (result_with 155)]
   \<and> aqi (result_with 155) = Some 155 \<and> (100::rat) \<le> 155
   \<and> dominant_pollutant (result_with 155) = Some ''pm2_5''
   \<and> length (outbox (fst (check_and_send_aqi_alerts always_155 always_sent 7
                             (fst (check_and_send_aqi_alerts always_155 always_sent 7 lone_world)))))
       = 1
   \<and> length (notifications (fst (check_and_send_aqi_alerts always_155 always_sent 7
                             (fst (check_and_send_aqi_alerts always_155 always_sent 7 lone_world)))))
       = 1
   \<and> sent (snd (check_and_send_aqi_alerts always_155 always_sent 7 lone_world)) = 1
   \<and> sent (snd (check_and_send_aqi_alerts always_155 always_sent 7
                   (fst (check_and_send_aqi_alerts always_155 always_sent 7 lone_world)))) = 0
   \<and> length (subscriptions twin_world) = 2
   \<and> new_alerts twin_world (fst (check_and_send_aqi_alerts always_155 always_sent 7 twin_world))
       = [\<lparr>alert_user = 5, alert_location = 1, alert_aqi = 155\<rparr>]
   \<and> distinct (map alert_key
        (new_alerts twin_world (fst (check_and_send_aqi_alerts always_155 always_sent 7 twin_world))))
   \<and> snd (run_sweeps twin_world [(7, always_155, always_sent), (7, always_155, always_sent)])
       = [(7, \<lparr>alert_user = 5, alert_location = 1, alert_aqi = 155\<rparr>)]
   \<and> distinct (map dated_key
        (snd (run_sweeps twin_world [(7, always_155, always_sent), (7, always_155, always_sent)])))
   \<and> notifications
        (fst (run_sweeps twin_world [(7, always_155, always_sent), (7, always_155, always_sent)]))
       = [\<lparr>note_user = 5, note_location = 1, note_aqi_value = 155, note_date = 7\<rparr>]"
proof -
  let ?s = "subscriber 5"
  have h1: "subscriptions lone_world = [?s]" by (simp add: lone_world_def)
  have h2: "sub_is_active ?s" by (simp add: subscriber_def)
  have h3: "is_active (sub_user ?s)" by (simp add: subscriber_def)
  have h4: "length (matching_locations (saved_locations lone_world) ?s) \<le> 1"
    by (simp add: lone_world_def matching_locations_def)
  have h5: "\<not> list_ex (\<lambda>n. note_user n = user_id (sub_user ?s) \<and> note_date n = 7)
               (notifications lone_world)"
    by (simp add: lone_world_def)
  have h6: "fetch_batch_current_aqi always_155 [coordinate_of ?s] = [Some (result_with 155)]"
    by (rule fetch_single_155)
  have h7: "aqi (result_with 155) = Some 155" by (rule aqi_result_with)
  have h8: "(100::rat) \<le> 155" by simp
  have hd: "dominant_pollutant (result_with 155) = Some ''pm2_5''" by (rule dominant_result_with)
  then have hd': "dominant_pollutant (result_with 155) \<noteq> None" by simp
  have h12: "\<forall>l. always_sent 0 (sub_user ?s) l 155" by (simp add: always_sent_def)
  have ob: "outbox lone_world = []" and nb: "notifications lone_world = []"
    by (simp_all add: lone_world_def)
  have hyp: "subscriptions lone_world = [?s] \<and> sub_is_active ?s \<and> is_active (sub_user ?s)
         \<and> length (matching_locations (saved_locations lone_world) ?s) \<le> 1
         \<and> \<not> list_ex (\<lambda>n. note_user n = user_id (sub_user ?s) \<and> note_date n = 7)
               (notifications lone_world)
         \<and> fetch_batch_current_aqi always_155 [coordinate_of ?s] = [Some (result_with 155)]
         \<and> aqi (result_with 155) = Some 155 \<and> 100 \<le> (155::rat)
         \<and> dominant_pollutant (result_with 155) \<noteq> None
         \<and> fetch_batch_current_aqi always_155 [coordinate_of ?s] = [Some (result_with 155)]
         \<and> aqi (result_with 155) = Some 155 \<and> 100 \<le> (155::rat)
         \<and> (\<forall>l. always_sent 0 (sub_user ?s) l 155)"
    using h1 h2 h3 h4 h5 h6 h7 h8 hd' h12 by (intro conjI)
  note t = alert_once_per_day
  from t have two: "\<forall>request1 request2 send_mail1 send_mail2 today w s r1 r2 v1 v2.
         subscriptions w = [s] \<and> sub_is_active s \<and> is_active (sub_user s)
         \<and> length (matching_locations (saved_locations w) s) \<le> 1
         \<and> \<not> list_ex (\<lambda>n. note_user n = user_id (sub_user s) \<and> note_date n = today)
               (notifications w)
         \<and> fetch_batch_current_aqi request1 [coordinate_of s] = [Some r1]
         \<and> aqi r1 = Some v1 \<and> 100 \<le> v1 \<and> dominant_pollutant r1 \<noteq> None
         \<and> fetch_batch_current_aqi request2 [coordinate_of s] = [Some r2]
         \<and> aqi r2 = Some v2 \<and> 100 \<le> v2
         \<and> (\<forall>l. send_mail1 0 (sub_user s) l v1)
       \<longrightarrow> (\<exists>l :: saved_location.
              outbox (fst (check_and_send_aqi_alerts request2 send_mail2 today
                             (fst (check_and_send_aqi_alerts request1 send_mail1 today w))))
                = outbox w
                  @ [\<lparr>alert_user = user_id (sub_user s), alert_location = loc_id l,
                       alert_aqi = v1\<rparr>]
              \<and> notifications (fst (check_and_send_aqi_alerts request2 send_mail2 today
                                     (fst (check_and_send_aqi_alerts request1 send_mail1 today w))))
                  = notifications w
                    @ [\<lparr>note_user = user_id (sub_user s), note_location = loc_id l,
                         note_aqi_value = v1, note_date = today\<rparr>]
              \<and> sent (snd (check_and_send_aqi_alerts request1 send_mail1 today w)) = 1
              \<and> sent (snd (check_and_send_aqi_alerts request2 send_mail2 today
                              (fst (check_and_send_aqi_alerts request1 send_mail1 today w)))) = 0)"
    by (elim conjE)
  obtain l :: saved_location where
    o: "outbox (fst (check_and_send_aqi_alerts always_155 always_sent 7
                       (fst (check_and_send_aqi_alerts always_155 always_sent 7 lone_world))))
          = outbox lone_world
            @ [\<lparr>alert_user = user_id (sub_user ?s), alert_location = loc_id l,
                 alert_aqi = 155\<rparr>]"
    and n: "notifications (fst (check_and_send_aqi_alerts always_155 always_sent 7
                       (fst (check_and_send_aqi_alerts always_155 always_sent 7 lone_world))))
          = notifications lone_world
            @ [\<lparr>note_user = user_id (sub_user ?s), note_location = loc_id l,
                 note_aqi_value = 155, note_date = 7\<rparr>]"
    and s1: "sent (snd (check_and_send_aqi_alerts always_155 always_sent 7 lone_world)) = 1"
    and s2: "sent (snd (check_and_send_aqi_alerts always_155 always_sent 7
                   (fst (check_and_send_aqi_alerts always_155 always_sent 7 lone_world)))) = 0"
    using two[rule_format,
        where w = lone_world and s = "subscriber 5" and today = 7
          and ?request1.0 = always_155 and ?request2.0 = always_155
          and ?send_mail1.0 = always_sent and ?send_mail2.0 = always_sent
          and ?r1.0 = "result_with 155" and ?r2.0 = "result_with 155"
          and ?v1.0 = 155 and ?v2.0 = 155, OF hyp]
    by (elim exE conjE)
  from o n have lo: "length (outbox (fst (check_and_send_aqi_alerts always_155 always_sent 7
                             (fst (check_and_send_aqi_alerts always_155 always_sent 7 lone_world)))))
       = 1"
    and ln: "length (notifications (fst (check_and_send_aqi_alerts always_155 always_sent 7
                             (fst (check_and_send_aqi_alerts always_155 always_sent 7 lone_world)))))
       = 1"
    by (simp_all add: ob nb)
  have tw: "length (subscriptions twin_world) = 2" by (simp add: twin_world_def)
  have na: "new_alerts twin_world
              (fst (check_and_send_aqi_alerts always_155 always_sent 7 twin_world))
       = [\<lparr>alert_user = 5, alert_location = 1, alert_aqi = 155\<rparr>]"
    by (simp add: twin_first new_alerts_def) (simp add: twin_alerted_def twin_world_def)
  from t have "\<forall>request send_mail today w.
         outbox (fst (check_and_send_aqi_alerts request send_mail today w))
           = outbox w @ new_alerts w (fst (check_and_send_aqi_alerts request send_mail today w))
         \<and> notifications (fst (check_and_send_aqi_alerts request send_mail today w))
             = notifications w
               @ map (notification_of today)
                   (new_alerts w (fst (check_and_send_aqi_alerts request send_mail today w)))
         \<and> distinct (map alert_key
                        (new_alerts w (fst (check_and_send_aqi_alerts request send_mail today w))))
         \<and> (\<forall>a \<in> set (new_alerts w (fst (check_and_send_aqi_alerts request send_mail today w))).
               \<not> has_row (notifications w) (alert_key a) today)"
    by (elim conjE)
  then have da: "distinct (map alert_key
        (new_alerts twin_world (fst (check_and_send_aqi_alerts always_155 always_sent 7 twin_world))))"
    by (elim allE conjE)
  from t have "\<forall>w runs.
         outbox (fst (run_sweeps w runs)) = outbox w @ map snd (snd (run_sweeps w runs))
         \<and> notifications (fst (run_sweeps w runs))
             = notifications w
               @ map (\<lambda>da. notification_of (fst da) (snd da)) (snd (run_sweeps w runs))
         \<and> distinct (map dated_key (snd (run_sweeps w runs)))
         \<and> (\<forall>da \<in> set (snd (run_sweeps w runs)).
               \<not> has_row (notifications w) (alert_key (snd da)) (fst da))"
    by (elim conjE)
  then have dd: "distinct (map dated_key
        (snd (run_sweeps twin_world [(7, always_155, always_sent), (7, always_155, always_sent)])))"
    by (elim allE conjE)
  have sr: "snd (run_sweeps twin_world [(7, always_155, always_sent), (7, always_155, always_sent)])
       = [(7, \<lparr>alert_user = 5, alert_location = 1, alert_aqi = 155\<rparr>)]"
    by (simp only: twin_series snd_conv)
  have nr: "notifications
        (fst (run_sweeps twin_world [(7, always_155, always_sent), (7, always_155, always_sent)]))
       = [\<lparr>note_user = 5, note_location = 1, note_aqi_value = 155, note_date = 7\<rparr>]"
    by (simp only: twin_series fst_conv) (simp add: twin_alerted_def)
  from h1 h2 h3 h4 h6 h7 h8 hd lo ln s1 s2 tw na da sr dd nr show ?thesis by (intro conjI)
qed

end
